theory Spec2Isabelle
  imports Complex_Main "HOL-Library.Char_ord"
begin

section \<open>Strings\<close>

text \<open>
  A JavaScript string is modelled as a \<^typ>\<open>string\<close>: a list of code units in the range
  0 to 255, read as Latin-1. The helpers below are the library methods the sources call
  (\<^verbatim>\<open>trim\<close>, \<^verbatim>\<open>toLowerCase\<close>, \<^verbatim>\<open>includes\<close>, \<^verbatim>\<open>startsWith\<close>, \<^verbatim>\<open>split\<close>) and the
  character classes of the regular expressions (\<^verbatim>\<open>\d\<close>, \<^verbatim>\<open>\s\<close>).
\<close>

definition is_digit :: "char \<Rightarrow> bool" where
  "is_digit c = (CHR ''0'' \<le> c \<and> c \<le> CHR ''9'')"

text \<open>White space and line terminators below 256: TAB, LF, VT, FF, CR, SP and NBSP.\<close>

definition is_space :: "char \<Rightarrow> bool" where
  "is_space c = ((of_char c :: nat) \<in> {9, 10, 11, 12, 13, 32, 160})"

definition lower_char :: "char \<Rightarrow> char" where
  "lower_char c =
     (let n = (of_char c :: nat)
      in if (65 \<le> n \<and> n \<le> 90) \<or> (192 \<le> n \<and> n \<le> 222 \<and> n \<noteq> 215)
         then char_of (n + 32) else c)"

definition toLowerCase :: "string \<Rightarrow> string" where
  "toLowerCase s = map lower_char s"

definition trim :: "string \<Rightarrow> string" where
  "trim s = rev (dropWhile is_space (rev (dropWhile is_space s)))"

definition startsWith :: "string \<Rightarrow> string \<Rightarrow> bool" where
  "startsWith s p = (take (length p) s = p)"

fun str_includes :: "string \<Rightarrow> string \<Rightarrow> bool" where
  "str_includes [] sub = (sub = [])"
| "str_includes (c # cs) sub = (startsWith (c # cs) sub \<or> str_includes cs sub)"

text \<open>\<^verbatim>\<open>s.split('\n')\<close>: the pieces between the separators, never an empty array.\<close>

fun split_char :: "char \<Rightarrow> string \<Rightarrow> string list" where
  "split_char sep [] = [[]]"
| "split_char sep (c # cs) =
     (if c = sep then [] # split_char sep cs
      else (case split_char sep cs of [] \<Rightarrow> [[c]] | p # ps \<Rightarrow> (c # p) # ps))"

text \<open>\<^verbatim>\<open>s.split(/\s+/)\<close>: the pieces between the maximal runs of white space.\<close>

fun split_spaces :: "string \<Rightarrow> string list" where
  "split_spaces [] = [[]]"
| "split_spaces [c] = (if is_space c then [[], []] else [[c]])"
| "split_spaces (c # d # cs) =
     (if is_space c then (if is_space d then split_spaces (d # cs) else [] # split_spaces (d # cs))
      else (case split_spaces (d # cs) of [] \<Rightarrow> [[c]] | p # ps \<Rightarrow> (c # p) # ps))"

section \<open>cli.ts: the command runner and the validators\<close>

datatype js_error = JsError (error_name: string) (error_message: string)

definition error_toString :: "js_error \<Rightarrow> string" where
  "error_toString e = error_name e @ '': '' @ error_message e"

record CLICommandResult =
  success :: bool
  stdout :: string
  stderr :: string
  error :: "js_error option"

text \<open>
  The only field of \<^verbatim>\<open>ExecFileOptions\<close> that a caller in this repository sets is the timeout,
  a number of milliseconds; \<open>None\<close> is an omitted field.
\<close>

record ExecFileOptions =
  timeout :: "int option"

definition no_options :: ExecFileOptions where
  "no_options = \<lparr>timeout = None\<rparr>"

definition with_timeout :: "int \<Rightarrow> ExecFileOptions" where
  "with_timeout t = \<lparr>timeout = Some t\<rparr>"

text \<open>
  The rejection of the promisified \<^verbatim>\<open>execFile\<close>: the error, and the output it carries when
  the child ran.
\<close>

record exec_rejection =
  rejection_error :: js_error
  rejection_stdout :: "string option"
  rejection_stderr :: "string option"

text \<open>
  The promise of \<^verbatim>\<open>execFileAsync(command, args, {timeout, maxBuffer})\<close>. It settles a number
  of milliseconds after the call, resolved with the two outputs or rejected (nonzero exit
  code, spawn failure, an argument that \<^verbatim>\<open>execFile\<close> refuses, overflow of the output cap, the
  child killed at the timeout that \<^verbatim>\<open>execFile\<close> was given), or it stays pending for ever,
  which is what a child does that hangs and survives the kill signal. The operating system
  is a parameter of this type: \<open>exec command args timeout\<close>.
\<close>

datatype exec_outcome =
  Resolved string string
| Rejected exec_rejection

datatype exec_promise =
  Settles nat exec_outcome
| Pending

type_synonym exec_oracle = "string \<Rightarrow> string list \<Rightarrow> int \<Rightarrow> exec_promise"

definition DEFAULT_TIMEOUT :: int where
  "DEFAULT_TIMEOUT = 30000"

text \<open>\<^verbatim>\<open>options.timeout || DEFAULT_TIMEOUT\<close>: an omitted and a zero timeout are both falsy.\<close>

definition effective_timeout :: "ExecFileOptions \<Rightarrow> int" where
  "effective_timeout options =
     (case timeout options of
        None \<Rightarrow> DEFAULT_TIMEOUT
      | Some t \<Rightarrow> if t = 0 then DEFAULT_TIMEOUT else t)"

definition or_empty :: "string option \<Rightarrow> string" where
  "or_empty s = (case s of None \<Rightarrow> [] | Some t \<Rightarrow> t)"

text \<open>
  The delay, in milliseconds, after which \<^verbatim>\<open>setTimeout(callback, timeout)\<close> runs its
  callback: Node sets a delay below 1 or above 2147483647 to 1.
\<close>

definition setTimeout_delay :: "int \<Rightarrow> nat" where
  "setTimeout_delay t = (if t < 1 \<or> 2147483647 < t then 1 else nat t)"

text \<open>
  \<^verbatim>\<open>Promise.race\<close> of the promise of the subprocess with the promise that the timer
  rejects: the millisecond in which the race settles, and the settlement of the subprocess
  when that came first, \<open>None\<close> when the rejection of the timer came first. In the
  millisecond in which the timer is due the event loop runs the timer before it looks for
  the completion of a child, so the subprocess comes first only when it settles in an
  earlier millisecond.
\<close>

definition race :: "exec_promise \<Rightarrow> nat \<Rightarrow> nat \<times> exec_outcome option" where
  "race subprocess delay =
     (case subprocess of
        Settles settled outcome \<Rightarrow>
          if settled < delay then (settled, Some outcome) else (delay, None)
      | Pending \<Rightarrow> (delay, None))"

text \<open>
  \<^verbatim>\<open>executeCommand\<close>: the \<^verbatim>\<open>try\<close> block returns when the race resolves, the \<^verbatim>\<open>catch\<close> block
  when it rejects, with the rejection of the subprocess or with the error of the timer,
  which has no output. \<open>executeCommand_returns_after\<close> is the number of milliseconds after
  which the promise of \<^verbatim>\<open>executeCommand\<close> is fulfilled with that result.
\<close>

definition executeCommand ::
  "exec_oracle \<Rightarrow> string \<Rightarrow> string list \<Rightarrow> ExecFileOptions \<Rightarrow> CLICommandResult" where
  "executeCommand exec command args options =
     (let timeout = effective_timeout options
      in case snd (race (exec command args timeout) (setTimeout_delay timeout)) of
           Some (Resolved out err) \<Rightarrow>
             \<lparr>success = True, stdout = out, stderr = err, error = None\<rparr>
         | Some (Rejected r) \<Rightarrow>
             \<lparr>success = False, stdout = or_empty (rejection_stdout r),
              stderr = or_empty (rejection_stderr r), error = Some (rejection_error r)\<rparr>
         | None \<Rightarrow>
             \<lparr>success = False, stdout = [], stderr = [],
              error = Some (JsError ''Error'' ''Command timeout'')\<rparr>)"


text \<open>The character class \<^verbatim>\<open>[a-zA-Z0-9_-]\<close>.\<close>

definition is_avd_char :: "char \<Rightarrow> bool" where
  "is_avd_char c =
     ((CHR ''a'' \<le> c \<and> c \<le> CHR ''z'') \<or> (CHR ''A'' \<le> c \<and> c \<le> CHR ''Z'') \<or>
      (CHR ''0'' \<le> c \<and> c \<le> CHR ''9'') \<or> c = CHR ''_'' \<or> c = CHR ''-'')"

text \<open>\<^verbatim>\<open>/^[a-zA-Z0-9_-]+$/.test(name)\<close>: one or more characters, all of the class.\<close>

definition avdNameRegex_test :: "string \<Rightarrow> bool" where
  "avdNameRegex_test name = (name \<noteq> [] \<and> list_all is_avd_char name)"

definition validateAVDName :: "string \<Rightarrow> bool" where
  "validateAVDName name = (avdNameRegex_test name \<and> length name > 0 \<and> length name < 100)"

text \<open>The character class \<^verbatim>\<open>[0-9A-F]\<close> under the flag \<^verbatim>\<open>i\<close>.\<close>

definition is_hex_char :: "char \<Rightarrow> bool" where
  "is_hex_char c =
     ((CHR ''0'' \<le> c \<and> c \<le> CHR ''9'') \<or> (CHR ''A'' \<le> c \<and> c \<le> CHR ''F'') \<or>
      (CHR ''a'' \<le> c \<and> c \<le> CHR ''f''))"

text \<open>
  \<^verbatim>\<open>/^[0-9A-F]{8}-[0-9A-F]{4}-[0-9A-F]{4}-[0-9A-F]{4}-[0-9A-F]{12}$/i.test(udid)\<close>: the groups
  of hexadecimal digits have fixed lengths, so the string splits at the hyphens in one
  way only.
\<close>

definition validateUDID :: "string \<Rightarrow> bool" where
  "validateUDID udid =
     (case split_char (CHR ''-'') udid of
        [a, b, c, d, e] \<Rightarrow>
          length a = 8 \<and> length b = 4 \<and> length c = 4 \<and> length d = 4 \<and> length e = 12 \<and>
          list_all is_hex_char (a @ b @ c @ d @ e)
      | _ \<Rightarrow> False)"

section \<open>types.ts\<close>

record IOSSimulator =
  sim_udid :: string
  sim_name :: string
  sim_state :: string
  sim_deviceTypeIdentifier :: string
  sim_runtime :: string

datatype run_status = Running | Stopped | Starting

record AndroidEmulator =
  emu_name :: string
  emu_status :: run_status

datatype EmulatorPlatform = IOS | Android

datatype IOSDeviceSubtype = IPhone | IPad | AppleWatch | AppleVision | AppleTV | Other

section \<open>The environment\<close>

text \<open>
  A value as \<^verbatim>\<open>JSON.parse\<close> returns it. The properties of an object are listed in the
  order in which \<^verbatim>\<open>for ... in\<close> enumerates them, each key once.
\<close>

datatype json =
  JNull
| JBool bool
| JNumber real
| JString string
| JArray "json list"
| JObject "(string \<times> json) list"

text \<open>
  Everything outside the program that its functions consult. The platform module's probes
  (\<^verbatim>\<open>checkXcodeAvailable\<close>, \<^verbatim>\<open>checkAndroidAvailable\<close>, \<^verbatim>\<open>getAndroidEmulatorPath\<close>,
  \<^verbatim>\<open>getAndroidAdbPath\<close>) look at the file system and the process environment; their
  outcomes are fields. \<open>spawn_error\<close> is the \<^verbatim>\<open>error\<close> event, if any, that a spawned
  emulator process emits in its first 100 milliseconds.
\<close>

record world =
  os_platform :: string
  run :: exec_oracle
  JSON_parse :: "string \<Rightarrow> js_error + json"
  checkXcodeAvailable :: bool
  checkAndroidAvailable :: bool
  getAndroidEmulatorPath :: "string option"
  getAndroidAdbPath :: "string option"
  spawn_error :: "string \<Rightarrow> string list \<Rightarrow> js_error option"

section \<open>iosEmulator.ts\<close>

text \<open>JavaScript truthiness of a parsed value.\<close>

fun truthy :: "json \<Rightarrow> bool" where
  "truthy JNull = False"
| "truthy (JBool b) = b"
| "truthy (JNumber x) = (x \<noteq> 0)"
| "truthy (JString s) = (s \<noteq> [])"
| "truthy (JArray xs) = True"
| "truthy (JObject kvs) = True"

text \<open>
  \<^verbatim>\<open>value[key]\<close> for a string key that is not an index: \<open>Inl\<close> is the \<^verbatim>\<open>TypeError\<close> of
  reading a property of \<^verbatim>\<open>null\<close>, \<open>Inr None\<close> is \<^verbatim>\<open>undefined\<close>.
\<close>

fun get_property :: "json \<Rightarrow> string \<Rightarrow> js_error + json option" where
  "get_property JNull key =
     Inl (JsError ''TypeError''
            (''Cannot read properties of null (reading '' @ [CHR 0x27] @ key @ [CHR 0x27] @ '')''))"
| "get_property (JObject kvs) key = Inr (map_of kvs key)"
| "get_property v key = Inr None"

fun show_nat :: "nat \<Rightarrow> string" where
  "show_nat n =
     (if n < 10 then [char_of (48 + n)] else show_nat (n div 10) @ [char_of (48 + n mod 10)])"

text \<open>
  The pairs \<open>(runtime, data.devices[runtime])\<close> that the loop
  \<^verbatim>\<open>for (const runtime in data.devices)\<close> visits. Nothing is enumerated for \<^verbatim>\<open>undefined\<close>,
  \<^verbatim>\<open>null\<close>, a number or a boolean; an array and a string enumerate their indices, and the
  elements of a string are strings, never arrays.
\<close>

fun for_in_entries :: "json option \<Rightarrow> (string \<times> json) list" where
  "for_in_entries (Some (JObject kvs)) = kvs"
| "for_in_entries (Some (JArray xs)) = zip (map show_nat [0..<length xs]) xs"
| "for_in_entries (Some (JString s)) =
     zip (map show_nat [0..<length s]) (map (\<lambda>c. JString [c]) s)"
| "for_in_entries v = []"

definition string_field :: "(string \<times> json) list \<Rightarrow> string \<Rightarrow> string option" where
  "string_field props key = (case map_of props key of Some (JString s) \<Rightarrow> Some s | _ \<Rightarrow> None)"

text \<open>
  One step of \<^verbatim>\<open>devices.map((device) => ({...device, runtime: device.runtime || runtime}))\<close>.
  Reading \<^verbatim>\<open>device.runtime\<close> of \<^verbatim>\<open>null\<close> throws. The result is read through the interface
  \<^verbatim>\<open>IOSSimulator\<close>, whose five fields are strings; a device object that does not have them
  as strings is not a value of that interface and is reported as \<open>NotAnIOSSimulator\<close>, the
  one outcome here that is a limit of the model and not an exception of the program.
\<close>

definition with_runtime :: "string \<Rightarrow> json \<Rightarrow> js_error + IOSSimulator" where
  "with_runtime runtime device =
     (case get_property device ''runtime'' of
        Inl e \<Rightarrow> Inl e
      | Inr r \<Rightarrow>
          (case device of
             JObject props \<Rightarrow>
               (case (string_field props ''udid'', string_field props ''name'',
                      string_field props ''state'', string_field props ''deviceTypeIdentifier'',
                      (case r of
                         None \<Rightarrow> Some runtime
                       | Some v \<Rightarrow> if truthy v then string_field props ''runtime'' else Some runtime))
                of (Some u, Some n, Some s, Some d, Some rt) \<Rightarrow>
                     Inr \<lparr>sim_udid = u, sim_name = n, sim_state = s,
                          sim_deviceTypeIdentifier = d, sim_runtime = rt\<rparr>
                 | _ \<Rightarrow> Inl (JsError ''NotAnIOSSimulator'' runtime))
           | _ \<Rightarrow> Inl (JsError ''NotAnIOSSimulator'' runtime)))"

text \<open>A loop body that may throw, run over a list: the first exception ends the loop.\<close>

fun map_throwing :: "('a \<Rightarrow> js_error + 'b) \<Rightarrow> 'a list \<Rightarrow> js_error + 'b list" where
  "map_throwing f [] = Inr []"
| "map_throwing f (x # xs) =
     (case f x of
        Inl e \<Rightarrow> Inl e
      | Inr y \<Rightarrow> (case map_throwing f xs of Inl e \<Rightarrow> Inl e | Inr ys \<Rightarrow> Inr (y # ys)))"

definition devices_of_entry :: "string \<times> json \<Rightarrow> js_error + IOSSimulator list" where
  "devices_of_entry entry =
     (case entry of
        (runtime, JArray devices) \<Rightarrow> map_throwing (with_runtime runtime) devices
      | _ \<Rightarrow> Inr [])"

definition parseIOSSimulatorList ::
  "(string \<Rightarrow> js_error + json) \<Rightarrow> string \<Rightarrow> js_error + IOSSimulator list" where
  "parseIOSSimulatorList parse jsonString =
     (case (case parse jsonString of
              Inl e \<Rightarrow> Inl e
            | Inr data \<Rightarrow>
                (case get_property data ''devices'' of
                   Inl e \<Rightarrow> Inl e
                 | Inr devices \<Rightarrow>
                     (case map_throwing devices_of_entry (for_in_entries devices) of
                        Inl e \<Rightarrow> Inl e
                      | Inr simulators \<Rightarrow> Inr (concat simulators))))
      of Inl e \<Rightarrow>
           Inl (JsError ''Error'' (''Failed to parse iOS simulator list: '' @ error_toString e))
       | Inr simulators \<Rightarrow> Inr simulators)"

text \<open>\<^verbatim>\<open>result.stderr || result.error?.message\<close>, as a template literal prints it.\<close>

definition failure_text :: "CLICommandResult \<Rightarrow> string" where
  "failure_text result =
     (if stderr result \<noteq> [] then stderr result
      else (case error result of None \<Rightarrow> ''undefined'' | Some e \<Rightarrow> error_message e))"

definition listIOSSimulators :: "world \<Rightarrow> js_error + IOSSimulator list" where
  "listIOSSimulators w =
     (if \<not> checkXcodeAvailable w
      then Inl (JsError ''Error'' ''Xcode command line tools are not available'')
      else let result = executeCommand (run w) ''xcrun'' [''simctl'', ''list'', ''--json'', ''devices'']
                          no_options
           in if \<not> success result
              then Inl (JsError ''Error'' (''Failed to list iOS simulators: '' @ failure_text result))
              else (case parseIOSSimulatorList (JSON_parse w) (stdout result) of
                      Inl e \<Rightarrow>
                        Inl (JsError ''Error''
                               (''Failed to parse simulator list: '' @ error_toString e))
                    | Inr simulators \<Rightarrow> Inr simulators))"

text \<open>\<open>None\<close> is the normal return, \<open>Some e\<close> the exception thrown.\<close>

definition bootIOSSimulator :: "world \<Rightarrow> string \<Rightarrow> js_error option" where
  "bootIOSSimulator w udid =
     (if \<not> validateUDID udid then Some (JsError ''Error'' (''Invalid UDID format: '' @ udid))
      else if \<not> checkXcodeAvailable w
      then Some (JsError ''Error'' ''Xcode command line tools are not available'')
      else let result = executeCommand (run w) ''xcrun'' [''simctl'', ''boot'', udid] no_options
           in if \<not> success result
              then (if str_includes (stderr result) ''already booted'' then None
                    else Some (JsError ''Error''
                                 (''Failed to boot simulator: '' @ failure_text result)))
              else (let opened = executeCommand (run w) ''open'' [''-a'', ''Simulator''] no_options
                    in None))"

definition isSimulatorBooted :: "IOSSimulator \<Rightarrow> bool" where
  "isSimulatorBooted simulator = (sim_state simulator = ''Booted'')"

definition getIOSDeviceSubtype :: "IOSSimulator \<Rightarrow> IOSDeviceSubtype" where
  "getIOSDeviceSubtype simulator =
     (let identifier = toLowerCase (sim_deviceTypeIdentifier simulator);
          name = toLowerCase (sim_name simulator)
      in if str_includes identifier ''iphone'' then IPhone
         else if str_includes identifier ''ipad'' then IPad
         else if str_includes identifier ''watch'' \<or> str_includes identifier ''apple watch''
         then AppleWatch
         else if str_includes identifier ''vision'' \<or> str_includes identifier ''vision pro''
         then AppleVision
         else if str_includes identifier ''tv'' \<or> str_includes identifier ''appletv''
         then AppleTV
         else if str_includes name ''iphone'' then IPhone
         else if str_includes name ''ipad'' then IPad
         else if str_includes name ''watch'' then AppleWatch
         else if str_includes name ''vision'' then AppleVision
         else if str_includes name ''tv'' then AppleTV
         else Other)"

text \<open>
  The three regular expressions of \<^verbatim>\<open>extractIOSVersion\<close>. \<^verbatim>\<open>String.match\<close> returns the
  leftmost match: \<open>first_match\<close> tries a matcher at every position from the left. The
  quantifiers are greedy, and since what follows a run of digits or of white space never
  belongs to the run's class, the only candidate at a position takes each run whole.
\<close>

fun first_match :: "(string \<Rightarrow> 'a option) \<Rightarrow> string \<Rightarrow> 'a option" where
  "first_match m [] = m []"
| "first_match m (c # cs) = (case m (c # cs) of Some r \<Rightarrow> Some r | None \<Rightarrow> first_match m cs)"

text \<open>\<^verbatim>\<open>(?:iOS|watchOS|tvOS|visionOS)\<close> under the flag \<^verbatim>\<open>i\<close>: what follows the name.\<close>

definition os_name_at :: "string \<Rightarrow> string option" where
  "os_name_at s =
     (case filter (\<lambda>n. toLowerCase (take (length n) s) = n)
             [''ios'', ''watchos'', ''tvos'', ''visionos''] of
        [] \<Rightarrow> None
      | n # ns \<Rightarrow> Some (drop (length n) s))"

text \<open>\<^verbatim>\<open>(\d+\.\d+(?:\.\d+)?)\<close>: the text of the group.\<close>

definition version_at :: "string \<Rightarrow> string option" where
  "version_at s =
     (let major = takeWhile is_digit s
      in if major = [] then None
         else (case dropWhile is_digit s of
                 c # t \<Rightarrow>
                   (let minor = takeWhile is_digit t
                    in if c \<noteq> CHR ''.'' \<or> minor = [] then None
                       else (case dropWhile is_digit t of
                               d # u \<Rightarrow>
                                 (let patch = takeWhile is_digit u
                                  in if d \<noteq> CHR ''.'' \<or> patch = []
                                     then Some (major @ ''.'' @ minor)
                                     else Some (major @ ''.'' @ minor @ ''.'' @ patch))
                             | [] \<Rightarrow> Some (major @ ''.'' @ minor)))
               | [] \<Rightarrow> None))"

text \<open>\<^verbatim>\<open>/(?:iOS|watchOS|tvOS|visionOS)\s+(\d+\.\d+(?:\.\d+)?)/i\<close> at a position.\<close>

definition simple_at :: "string \<Rightarrow> string option" where
  "simple_at s =
     (case os_name_at s of
        None \<Rightarrow> None
      | Some t \<Rightarrow> if takeWhile is_space t = [] then None else version_at (dropWhile is_space t))"

text \<open>\<^verbatim>\<open>/(?:iOS|watchOS|tvOS|visionOS)-(\d+)-(\d+)/i\<close> at a position: the two groups.\<close>

definition identifier_at :: "string \<Rightarrow> (string \<times> string) option" where
  "identifier_at s =
     (case os_name_at s of
        Some (c # t) \<Rightarrow>
          (let major = takeWhile is_digit t
           in if c \<noteq> CHR ''-'' \<or> major = [] then None
              else (case dropWhile is_digit t of
                      d # u \<Rightarrow>
                        (let minor = takeWhile is_digit u
                         in if d \<noteq> CHR ''-'' \<or> minor = [] then None else Some (major, minor))
                    | [] \<Rightarrow> None))
      | _ \<Rightarrow> None)"

definition simpleMatch :: "string \<Rightarrow> string option" where
  "simpleMatch runtime = first_match simple_at runtime"

definition identifierMatch :: "string \<Rightarrow> (string \<times> string) option" where
  "identifierMatch runtime = first_match identifier_at runtime"

definition versionMatch :: "string \<Rightarrow> string option" where
  "versionMatch runtime = first_match version_at runtime"

definition extractIOSVersion :: "string \<Rightarrow> string option" where
  "extractIOSVersion runtime =
     (if runtime = [] then None
      else (case simpleMatch runtime of
              Some v \<Rightarrow> Some v
            | None \<Rightarrow>
                (case identifierMatch runtime of
                   Some (major, minor) \<Rightarrow> Some (major @ ''.'' @ minor)
                 | None \<Rightarrow> versionMatch runtime)))"

section \<open>androidEmulator.ts\<close>

definition parseAndroidEmulatorList :: "string \<Rightarrow> AndroidEmulator list" where
  "parseAndroidEmulatorList output =
     (let lines = filter (\<lambda>line. length (trim line) > 0) (split_char (CHR 0x0A) (trim output))
      in map (\<lambda>name. \<lparr>emu_name = trim name, emu_status = Stopped\<rparr>) lines)"

definition listAndroidEmulators :: "world \<Rightarrow> js_error + AndroidEmulator list" where
  "listAndroidEmulators w =
     (if \<not> checkAndroidAvailable w
      then Inl (JsError ''Error''
             ''Android emulator tools are not available. Please install Android Studio and ensure emulator is in PATH.'')
      else (case getAndroidEmulatorPath w of
              None \<Rightarrow>
                Inl (JsError ''Error''
                  ''Android emulator command not found. Please ensure ANDROID_HOME is set or emulator is in PATH.'')
            | Some emulatorPath \<Rightarrow>
                (let result = executeCommand (run w) emulatorPath [''-list-avds''] no_options
                 in if \<not> success result
                    then Inl (JsError ''Error''
                           (''Failed to list Android emulators: '' @ failure_text result))
                    else Inr (parseAndroidEmulatorList (stdout result)))))"

text \<open>
  The pattern of \<^verbatim>\<open>getAVDNameFromProcesses\<close>, \<^verbatim>\<open>[-_]avd[\s=]+\<close> followed by the escaped
  name. The replacement escapes every character that is special in a pattern, so the name
  stands for itself. Both the output and the name were put in lower case before, so the
  flag \<^verbatim>\<open>i\<close> adds nothing. \<open>after_separators\<close> is \<^verbatim>\<open>[\s=]+\<close> followed by the name, with every
  length of the run tried.
\<close>

fun after_separators :: "string \<Rightarrow> string \<Rightarrow> bool" where
  "after_separators name [] = False"
| "after_separators name (c # cs) =
     ((is_space c \<or> c = CHR ''='') \<and> (startsWith cs name \<or> after_separators name cs))"

definition avd_at :: "string \<Rightarrow> string \<Rightarrow> bool" where
  "avd_at name s =
     (case s of
        c # a # v # d # rest \<Rightarrow>
          (c = CHR ''-'' \<or> c = CHR ''_'') \<and> a = CHR ''a'' \<and> v = CHR ''v'' \<and> d = CHR ''d'' \<and>
          after_separators name rest
      | _ \<Rightarrow> False)"

fun test_anywhere :: "(string \<Rightarrow> bool) \<Rightarrow> string \<Rightarrow> bool" where
  "test_anywhere m [] = m []"
| "test_anywhere m (c # cs) = (m (c # cs) \<or> test_anywhere m cs)"

definition process_listing_command :: "world \<Rightarrow> string \<times> string list" where
  "process_listing_command w =
     (if os_platform w = ''win32''
      then (''wmic'', [''process'', ''where'',
              ''name='' @ [CHR 0x22] @ ''emulator.exe'' @ [CHR 0x22], ''get'', ''commandline''])
      else if os_platform w = ''darwin'' then (''ps'', [''ax'', ''-o'', ''command''])
      else (''ps'', [''-eo'', ''command'']))"

definition getAVDNameFromProcesses :: "world \<Rightarrow> string \<Rightarrow> bool" where
  "getAVDNameFromProcesses w emulatorName =
     (let (command, args) = process_listing_command w;
          result = executeCommand (run w) command args (with_timeout 3000)
      in if success result
         then (let output = toLowerCase (stdout result);
                   escapedName = toLowerCase emulatorName
               in test_anywhere (avd_at escapedName) output)
         else False)"

definition isAndroidSystemRunning :: "world \<Rightarrow> string \<Rightarrow> string \<Rightarrow> bool" where
  "isAndroidSystemRunning w adbCmd serial =
     (let serviceResult = executeCommand (run w) adbCmd
            [''-s'', serial, ''shell'', ''service'', ''list''] (with_timeout 3000)
      in if success serviceResult \<and> length (trim (stdout serviceResult)) > 0 then True
         else let dumpsysResult = executeCommand (run w) adbCmd
                    [''-s'', serial, ''shell'', ''dumpsys'', ''activity'', ''services'']
                    (with_timeout 3000)
              in if success dumpsysResult \<and> length (trim (stdout dumpsysResult)) > 0 then True
                 else let bootResult = executeCommand (run w) adbCmd
                            [''-s'', serial, ''shell'', ''getprop'', ''sys.boot_completed'']
                            (with_timeout 2000)
                      in if success bootResult \<and> trim (stdout bootResult) = ''1'' then True
                         else False)"

text \<open>\<^verbatim>\<open>.replace(/OK/g, '')\<close>, \<^verbatim>\<open>.replace(/\r\n/g, '\n')\<close> and \<^verbatim>\<open>.replace(/\n/g, ' ')\<close>.\<close>

fun remove_OK :: "string \<Rightarrow> string" where
  "remove_OK (c # d # cs) =
     (if c = CHR ''O'' \<and> d = CHR ''K'' then remove_OK cs else c # remove_OK (d # cs))"
| "remove_OK cs = cs"

fun normalize_line_endings :: "string \<Rightarrow> string" where
  "normalize_line_endings (c # d # cs) =
     (if c = CHR 0x0D \<and> d = CHR 0x0A then CHR 0x0A # normalize_line_endings cs
      else c # normalize_line_endings (d # cs))"
| "normalize_line_endings cs = cs"

definition newlines_to_spaces :: "string \<Rightarrow> string" where
  "newlines_to_spaces s = map (\<lambda>c. if c = CHR 0x0A then CHR '' '' else c) s"

definition getEmulatorAVDName :: "world \<Rightarrow> string \<Rightarrow> string \<Rightarrow> string option" where
  "getEmulatorAVDName w adbCmd serial =
     (let avdResult = executeCommand (run w) adbCmd [''-s'', serial, ''emu'', ''avd'', ''name'']
            (with_timeout 3000);
          avdName = trim (newlines_to_spaces (normalize_line_endings (remove_OK (stdout avdResult))))
      in if success avdResult \<and> avdName \<noteq> [] then Some avdName
         else let propResult = executeCommand (run w) adbCmd
                    [''-s'', serial, ''shell'', ''getprop'', ''ro.boot.qemu.avd_name'']
                    (with_timeout 3000);
                  avdName = trim (stdout propResult)
              in if success propResult \<and> avdName \<noteq> [] then Some avdName
                 else let propResult = executeCommand (run w) adbCmd
                            [''-s'', serial, ''shell'', ''getprop'', ''ro.kernel.qemu.avd_name'']
                            (with_timeout 3000);
                          avdName = trim (stdout propResult)
                      in if success propResult \<and> avdName \<noteq> [] then Some avdName
                         else None)"

text \<open>
  A \<^verbatim>\<open>Map\<close> from AVD names to statuses, as the list of its entries in insertion order;
  \<open>map_set\<close> is \<^verbatim>\<open>Map.prototype.set\<close>, which keeps the place of a key that is present.
\<close>

fun map_set :: "('k \<times> 'v) list \<Rightarrow> 'k \<Rightarrow> 'v \<Rightarrow> ('k \<times> 'v) list" where
  "map_set [] k v = [(k, v)]"
| "map_set ((k', v') # m) k v = (if k' = k then (k, v) # m else (k', v') # map_set m k v)"

text \<open>
  The first loop of \<^verbatim>\<open>getAllRunningEmulators\<close>: the serial and the connection state of the
  attached emulator devices, read from every line but the first of the non-blank lines of
  \<^verbatim>\<open>adb devices -l\<close>.
\<close>

definition emulatorSerials_of :: "string \<Rightarrow> (string \<times> string) list" where
  "emulatorSerials_of output =
     (let lines = filter (\<lambda>line. length (trim line) > 0) (split_char (CHR 0x0A) output)
      in concat (map (\<lambda>line.
             (case split_spaces (trim line) of
                serial # status # rest \<Rightarrow>
                  if startsWith serial ''emulator-'' then [(serial, status)] else []
              | _ \<Rightarrow> []))
           (drop 1 lines)))"

definition attached_emulators :: "world \<Rightarrow> string \<Rightarrow> (string \<times> string) list" where
  "attached_emulators w adbCmd =
     (let result = executeCommand (run w) adbCmd [''devices'', ''-l''] no_options
      in if \<not> success result \<and> length (trim (stdout result)) = 0 then []
         else emulatorSerials_of (stdout result))"

text \<open>The second loop: one step for a device, and the loop over the devices.\<close>

definition record_device ::
  "world \<Rightarrow> string \<Rightarrow> (string \<times> run_status) list \<Rightarrow> string \<times> string
    \<Rightarrow> (string \<times> run_status) list" where
  "record_device w adbCmd runningEmulators device =
     (case device of (serial, status) \<Rightarrow>
        (case getEmulatorAVDName w adbCmd serial of
           Some avdName \<Rightarrow>
             if status = ''device''
             then map_set runningEmulators avdName
                    (if isAndroidSystemRunning w adbCmd serial then Running else Starting)
             else map_set runningEmulators avdName Starting
         | None \<Rightarrow> runningEmulators))"

definition getAllRunningEmulators :: "world \<Rightarrow> string \<Rightarrow> (string \<times> run_status) list" where
  "getAllRunningEmulators w adbCmd =
     foldl (record_device w adbCmd) [] (attached_emulators w adbCmd)"

definition adb_command :: "world \<Rightarrow> string" where
  "adb_command w =
     (case getAndroidAdbPath w of
        Some adbCmd \<Rightarrow>
          if adbCmd \<noteq> [] then adbCmd
          else if os_platform w = ''win32'' then ''adb.exe'' else ''adb''
      | None \<Rightarrow> if os_platform w = ''win32'' then ''adb.exe'' else ''adb'')"

definition getAndroidEmulatorStatus :: "world \<Rightarrow> string \<Rightarrow> run_status" where
  "getAndroidEmulatorStatus w emulatorName =
     (let adbCmd = adb_command w;
          runningEmulators = getAllRunningEmulators w adbCmd
      in case map_of runningEmulators emulatorName of
           Some status \<Rightarrow> status
         | None \<Rightarrow>
             if getAVDNameFromProcesses w emulatorName
             then (case runningEmulators of
                     [(onlyName, onlyStatus)] \<Rightarrow> onlyStatus
                   | [] \<Rightarrow> Starting
                   | _ \<Rightarrow> Stopped)
             else Stopped)"

definition isAndroidEmulatorRunning :: "world \<Rightarrow> string \<Rightarrow> bool" where
  "isAndroidEmulatorRunning w emulatorName = (getAndroidEmulatorStatus w emulatorName = Running)"

text \<open>\<open>None\<close> is the normal return, \<open>Some e\<close> the exception thrown.\<close>

definition bootAndroidEmulator :: "world \<Rightarrow> string \<Rightarrow> js_error option" where
  "bootAndroidEmulator w avdName =
     (if \<not> validateAVDName avdName
      then Some (JsError ''Error'' (''Invalid AVD name format: '' @ avdName))
      else if \<not> checkAndroidAvailable w
      then Some (JsError ''Error'' ''Android emulator tools are not available'')
      else (case getAndroidEmulatorPath w of
              None \<Rightarrow> Some (JsError ''Error'' ''Android emulator command not found'')
            | Some emulatorPath \<Rightarrow>
                if isAndroidEmulatorRunning w avdName then None
                else (case spawn_error w emulatorPath [''-avd'', avdName] of
                        Some e \<Rightarrow>
                          Some (JsError ''Error'' (''Failed to start emulator: '' @ error_message e))
                      | None \<Rightarrow> None)))"

section \<open>emulatorProvider.ts: the reconciling store\<close>

text \<open>
  An \<^verbatim>\<open>EmulatorItem\<close> is an object with an identity: the store and the tree view hold
  references to it and it is updated in place. The objects live in a heap, a reference is
  an index into it, and \<^verbatim>\<open>children\<close> is a list of references. An optional field that is
  absent is \<open>None\<close>; an absent flag is \<open>False\<close>. The fields \<^verbatim>\<open>id\<close>, \<^verbatim>\<open>udid\<close> and \<^verbatim>\<open>name\<close>
  are \<open>item_id\<close>, \<open>item_udid\<close> and \<open>item_name\<close> here.
\<close>

type_synonym ref = nat

record EmulatorItem =
  item_id :: string
  label :: string
  platform :: EmulatorPlatform
  status :: run_status
  item_udid :: "string option"
  item_name :: "string option"
  icon :: "string option"
  isCategory :: bool
  isSubtype :: bool
  subtype :: "IOSDeviceSubtype option"
  iosVersion :: "string option"
  children :: "ref list option"

text \<open>
  The fields of \<^verbatim>\<open>EmulatorProvider\<close>, the objects allocated so far, and what the provider
  has done to its host: the number of times it fired \<^verbatim>\<open>onDidChangeTreeData\<close>, the messages
  it showed with \<^verbatim>\<open>showErrorMessage\<close>, and the delays of the status checks it scheduled
  with \<^verbatim>\<open>setTimeout\<close>.
\<close>

record provider =
  heap :: "EmulatorItem list"
  iosEmulators :: "ref list"
  iosEmulatorsBySubtype :: "(IOSDeviceSubtype \<times> ref list) list"
  androidEmulators :: "ref list"
  fired :: nat
  errorMessages :: "string list"
  scheduledChecks :: "nat list"

definition subtype_label :: "IOSDeviceSubtype \<Rightarrow> string" where
  "subtype_label t =
     (case t of IPhone \<Rightarrow> ''iPhone'' | IPad \<Rightarrow> ''iPad'' | AppleWatch \<Rightarrow> ''Apple Watch''
      | AppleVision \<Rightarrow> ''Apple Vision'' | AppleTV \<Rightarrow> ''Apple TV'' | Other \<Rightarrow> ''Other'')"

definition subtypeOrder :: "IOSDeviceSubtype list" where
  "subtypeOrder = [IPhone, IPad, AppleWatch, AppleVision, AppleTV, Other]"

definition status_icon :: "run_status \<Rightarrow> string" where
  "status_icon s =
     (if s = Running then ''$(circle-filled)''
      else if s = Starting then ''$(sync~spin)'' else ''$(circle-outline)'')"

text \<open>The object literals of the provider.\<close>

definition ios_item ::
  "string \<Rightarrow> IOSSimulator \<Rightarrow> run_status \<Rightarrow> string \<Rightarrow> IOSDeviceSubtype \<Rightarrow> string option
    \<Rightarrow> EmulatorItem" where
  "ios_item ident sim newStatus newIcon st version =
     \<lparr>item_id = ident, label = sim_name sim, platform = IOS, status = newStatus,
      item_udid = Some (sim_udid sim), item_name = None, icon = Some newIcon, isCategory = False,
      isSubtype = False, subtype = Some st, iosVersion = version, children = None\<rparr>"

definition subtype_item :: "IOSDeviceSubtype \<Rightarrow> ref list \<Rightarrow> EmulatorItem" where
  "subtype_item st emulators =
     \<lparr>item_id = ''ios-subtype-'' @ subtype_label st, label = subtype_label st, platform = IOS,
      status = Stopped, item_udid = None, item_name = None, icon = None, isCategory = False,
      isSubtype = True, subtype = Some st, iosVersion = None, children = Some emulators\<rparr>"

definition android_item :: "string \<Rightarrow> AndroidEmulator \<Rightarrow> run_status \<Rightarrow> string \<Rightarrow> EmulatorItem" where
  "android_item ident emu newStatus newIcon =
     \<lparr>item_id = ident, label = emu_name emu, platform = Android, status = newStatus,
      item_udid = None, item_name = Some (emu_name emu), icon = Some newIcon, isCategory = False,
      isSubtype = False, subtype = None, iosVersion = None, children = None\<rparr>"

definition placeholder_item ::
  "string \<Rightarrow> string \<Rightarrow> EmulatorPlatform \<Rightarrow> string \<Rightarrow> EmulatorItem" where
  "placeholder_item ident text p ic =
     \<lparr>item_id = ident, label = text, platform = p, status = Stopped,
      item_udid = None, item_name = None, icon = Some ic, isCategory = False,
      isSubtype = False, subtype = None, iosVersion = None, children = None\<rparr>"

text \<open>
  The emulator items of the nested iOS structure, in the order in which the loops over the
  subtype items and their children visit them.
\<close>

definition subtype_children :: "EmulatorItem list \<Rightarrow> ref \<Rightarrow> ref list" where
  "subtype_children h r =
     (if isSubtype (h ! r) then (case children (h ! r) of Some cs \<Rightarrow> cs | None \<Rightarrow> []) else [])"

definition ios_children :: "EmulatorItem list \<Rightarrow> ref list \<Rightarrow> ref list" where
  "ios_children h subtypeItems = concat (map (subtype_children h) subtypeItems)"

text \<open>\<^verbatim>\<open>existingIOS\<close> and \<^verbatim>\<open>existingAndroid\<close>: a \<^verbatim>\<open>Map\<close> from the id of each item to the item.\<close>

definition existing_by_id :: "EmulatorItem list \<Rightarrow> ref list \<Rightarrow> (string \<times> ref) list" where
  "existing_by_id h items = foldl (\<lambda>m r. map_set m (item_id (h ! r)) r) [] items"

text \<open>
  \<^verbatim>\<open>if (!subtypeMap.has(subtype)) subtypeMap.set(subtype, []); subtypeMap.get(subtype).push(item)\<close>
\<close>

fun push_to :: "('k \<times> 'v list) list \<Rightarrow> 'k \<Rightarrow> 'v \<Rightarrow> ('k \<times> 'v list) list" where
  "push_to [] k v = [(k, [v])]"
| "push_to ((k', vs) # m) k v = (if k' = k then (k', vs @ [v]) # m else (k', vs) # push_to m k v)"

text \<open>
  The body of the loop over the listed simulators in \<^verbatim>\<open>loadEmulators\<close>. The loop carries
  the heap, \<^verbatim>\<open>hasChanges\<close> and \<^verbatim>\<open>subtypeMap\<close>.
\<close>

definition load_ios_step ::
  "(string \<times> ref) list \<Rightarrow> EmulatorItem list \<times> bool \<times> (IOSDeviceSubtype \<times> ref list) list
    \<Rightarrow> IOSSimulator \<Rightarrow> EmulatorItem list \<times> bool \<times> (IOSDeviceSubtype \<times> ref list) list" where
  "load_ios_step existingIOS acc sim =
     (case acc of (h, hasChanges, subtypeMap) \<Rightarrow>
        (let ident = ''ios-'' @ sim_udid sim;
             isRunning = isSimulatorBooted sim;
             newStatus = (if isRunning then Running else Stopped);
             newIcon = (if isRunning then ''$(circle-filled)'' else ''$(circle-outline)'');
             st = getIOSDeviceSubtype sim;
             version = extractIOSVersion (sim_runtime sim)
         in case map_of existingIOS ident of
              Some existing \<Rightarrow>
                (let statusChanged =
                       (status (h ! existing) \<noteq> newStatus \<or> icon (h ! existing) \<noteq> Some newIcon);
                     h1 = (if statusChanged
                           then h[existing := (h ! existing)\<lparr>status := newStatus, icon := Some newIcon\<rparr>]
                           else h);
                     versionChanged = (iosVersion (h1 ! existing) \<noteq> version);
                     h2 = (if versionChanged
                           then h1[existing := (h1 ! existing)\<lparr>iosVersion := version\<rparr>]
                           else h1)
                 in (h2, hasChanges \<or> statusChanged \<or> versionChanged,
                     push_to subtypeMap st existing))
            | None \<Rightarrow>
                (h @ [ios_item ident sim newStatus newIcon st version], True,
                 push_to subtypeMap st (length h))))"

text \<open>The loop over \<^verbatim>\<open>subtypeOrder\<close> that creates the subtype items; it carries the heap
  and \<^verbatim>\<open>iosItems\<close>.\<close>

definition subtype_step ::
  "(IOSDeviceSubtype \<times> ref list) list \<Rightarrow> EmulatorItem list \<times> ref list \<Rightarrow> IOSDeviceSubtype
    \<Rightarrow> EmulatorItem list \<times> ref list" where
  "subtype_step subtypeMap acc st =
     (case acc of (h, iosItems) \<Rightarrow>
        (case map_of subtypeMap st of
           Some emulators \<Rightarrow>
             if length emulators > 0
             then (h @ [subtype_item st emulators], iosItems @ [length h])
             else (h, iosItems)
         | None \<Rightarrow> (h, iosItems)))"

text \<open>
  The iOS part of \<^verbatim>\<open>loadEmulators\<close>: the heap, \<^verbatim>\<open>hasChanges\<close>, \<^verbatim>\<open>iosItems\<close> and the value
  of \<^verbatim>\<open>this.iosEmulatorsBySubtype\<close> after it.
\<close>

definition load_ios ::
  "world \<Rightarrow> provider
    \<Rightarrow> EmulatorItem list \<times> bool \<times> ref list \<times> (IOSDeviceSubtype \<times> ref list) list" where
  "load_ios w s =
     (let h = heap s;
          existingIOS = existing_by_id h (ios_children h (iosEmulators s))
      in if checkXcodeAvailable w
         then (case listIOSSimulators w of
                 Inr iosSimulators \<Rightarrow>
                   (case foldl (load_ios_step existingIOS) (h, False, []) iosSimulators of
                      (h1, hasChanges, subtypeMap) \<Rightarrow>
                        (case foldl (subtype_step subtypeMap) (h1, []) subtypeOrder of
                           (h2, iosItems) \<Rightarrow> (h2, hasChanges, iosItems, subtypeMap)))
               | Inl e \<Rightarrow>
                   (h @ [placeholder_item ''ios-error'' (error_message e) IOS ''$(error)''], True,
                    [length h], iosEmulatorsBySubtype s))
         else (h @ [placeholder_item ''ios-unavailable'' ''Xcode not available'' IOS ''$(warning)''],
               True, [length h], iosEmulatorsBySubtype s))"

text \<open>The body of the loop over the listed AVDs; it carries the heap, \<^verbatim>\<open>hasChanges\<close> and
  \<^verbatim>\<open>androidItems\<close>.\<close>

definition load_android_step ::
  "world \<Rightarrow> (string \<times> ref) list \<Rightarrow> EmulatorItem list \<times> bool \<times> ref list \<Rightarrow> AndroidEmulator
    \<Rightarrow> EmulatorItem list \<times> bool \<times> ref list" where
  "load_android_step w existingAndroid acc emu =
     (case acc of (h, hasChanges, androidItems) \<Rightarrow>
        (let ident = ''android-'' @ emu_name emu;
             newStatus = getAndroidEmulatorStatus w (emu_name emu);
             newIcon = status_icon newStatus
         in case map_of existingAndroid ident of
              Some existing \<Rightarrow>
                if status (h ! existing) \<noteq> newStatus \<or> icon (h ! existing) \<noteq> Some newIcon
                then (h[existing := (h ! existing)\<lparr>status := newStatus, icon := Some newIcon\<rparr>],
                      True, androidItems @ [existing])
                else (h, hasChanges, androidItems @ [existing])
            | None \<Rightarrow>
                (h @ [android_item ident emu newStatus newIcon], True, androidItems @ [length h])))"

definition load_android ::
  "world \<Rightarrow> provider \<Rightarrow> EmulatorItem list \<times> bool \<Rightarrow> EmulatorItem list \<times> bool \<times> ref list" where
  "load_android w s acc =
     (case acc of (h, hasChanges) \<Rightarrow>
        (let existingAndroid = existing_by_id (heap s) (androidEmulators s)
         in if checkAndroidAvailable w
            then (case listAndroidEmulators w of
                    Inr avds \<Rightarrow>
                      foldl (load_android_step w existingAndroid) (h, hasChanges, []) avds
                  | Inl e \<Rightarrow>
                      (h @ [placeholder_item ''android-error'' (error_message e) Android ''$(error)''],
                       True, [length h]))
            else (h @ [placeholder_item ''android-unavailable'' ''Android Studio not available''
                         Android ''$(warning)''],
                  True, [length h])))"

definition loadEmulators :: "world \<Rightarrow> provider \<Rightarrow> provider" where
  "loadEmulators w s =
     (case load_ios w s of
        (h1, iosChanges, iosItems, bySubtype) \<Rightarrow>
          (case load_android w s (h1, iosChanges) of
             (h2, hasChanges, androidItems) \<Rightarrow>
               if hasChanges \<or> length (iosEmulators s) \<noteq> length iosItems
                  \<or> length (androidEmulators s) \<noteq> length androidItems
               then s\<lparr>heap := h2, iosEmulators := iosItems, iosEmulatorsBySubtype := bySubtype,
                      androidEmulators := androidItems, fired := fired s + 1\<rparr>
               else s\<lparr>heap := h2, iosEmulatorsBySubtype := bySubtype\<rparr>))"

definition refresh :: "world \<Rightarrow> provider \<Rightarrow> provider" where
  "refresh w s = loadEmulators w s"

text \<open>\<^verbatim>\<open>findIOSEmulator\<close>: the first child with the id, in the first subtype item that has one.\<close>

fun find_in_subtypes :: "EmulatorItem list \<Rightarrow> string \<Rightarrow> ref list \<Rightarrow> ref option" where
  "find_in_subtypes h ident [] = None"
| "find_in_subtypes h ident (r # rs) =
     (case (if isSubtype (h ! r) then children (h ! r) else None) of
        Some cs \<Rightarrow>
          (case find (\<lambda>e. item_id (h ! e) = ident) cs of
             Some found \<Rightarrow> Some found
           | None \<Rightarrow> find_in_subtypes h ident rs)
      | None \<Rightarrow> find_in_subtypes h ident rs)"

definition findIOSEmulator :: "EmulatorItem list \<Rightarrow> ref list \<Rightarrow> string \<Rightarrow> ref option" where
  "findIOSEmulator h subtypeItems ident = find_in_subtypes h ident subtypeItems"

text \<open>\<^verbatim>\<open>this.androidEmulators.findIndex((e) => e.id === id)\<close>, \<open>None\<close> for \<open>-1\<close>.\<close>

fun findIndex :: "('a \<Rightarrow> bool) \<Rightarrow> 'a list \<Rightarrow> nat option" where
  "findIndex P [] = None"
| "findIndex P (x # xs) = (if P x then Some 0 else map_option Suc (findIndex P xs))"

text \<open>The bodies of the two loops of \<^verbatim>\<open>checkStatusChanges\<close>; they carry the heap and
  \<^verbatim>\<open>hasChanges\<close>.\<close>

definition check_ios_step ::
  "ref list \<Rightarrow> EmulatorItem list \<times> bool \<Rightarrow> IOSSimulator \<Rightarrow> EmulatorItem list \<times> bool" where
  "check_ios_step subtypeItems acc sim =
     (case acc of (h, hasChanges) \<Rightarrow>
        (case findIOSEmulator h subtypeItems (''ios-'' @ sim_udid sim) of
           Some existing \<Rightarrow>
             (let isRunning = isSimulatorBooted sim;
                  newStatus = (if isRunning then Running else Stopped)
              in if status (h ! existing) \<noteq> newStatus
                 then (h[existing := (h ! existing)
                          \<lparr>status := newStatus,
                           icon := Some (if isRunning then ''$(circle-filled)''
                                         else ''$(circle-outline)'')\<rparr>],
                       True)
                 else (h, hasChanges))
         | None \<Rightarrow> (h, hasChanges)))"

definition check_android_step ::
  "world \<Rightarrow> ref list \<Rightarrow> EmulatorItem list \<times> bool \<Rightarrow> AndroidEmulator
    \<Rightarrow> EmulatorItem list \<times> bool" where
  "check_android_step w items acc emu =
     (case acc of (h, hasChanges) \<Rightarrow>
        (case findIndex (\<lambda>e. item_id (h ! e) = ''android-'' @ emu_name emu) items of
           Some existingIndex \<Rightarrow>
             (let existing = items ! existingIndex;
                  newStatus = getAndroidEmulatorStatus w (emu_name emu)
              in if status (h ! existing) \<noteq> newStatus
                 then (h[existing := (h ! existing)
                          \<lparr>status := newStatus, icon := Some (status_icon newStatus)\<rparr>],
                       True)
                 else (h, hasChanges))
         | None \<Rightarrow> (h, hasChanges)))"

definition checkStatusChanges :: "world \<Rightarrow> provider \<Rightarrow> provider" where
  "checkStatusChanges w s =
     (let acc0 = (heap s, False);
          acc1 = (if checkXcodeAvailable w
                  then (case listIOSSimulators w of
                          Inr iosSimulators \<Rightarrow>
                            foldl (check_ios_step (iosEmulators s)) acc0 iosSimulators
                        | Inl e \<Rightarrow> acc0)
                  else acc0);
          acc2 = (if checkAndroidAvailable w
                  then (case listAndroidEmulators w of
                          Inr avds \<Rightarrow>
                            foldl (check_android_step w (androidEmulators s)) acc1 avds
                        | Inl e \<Rightarrow> acc1)
                  else acc1)
      in case acc2 of (h, hasChanges) \<Rightarrow>
           if hasChanges then s\<lparr>heap := h, fired := fired s + 1\<rparr> else s\<lparr>heap := h\<rparr>)"

text \<open>
  \<^verbatim>\<open>startEmulator\<close>, in its three stages. \<open>mark\<close> finds the record of the item's id in the
  store and sets it to the given status and icon; it says whether it found one.
\<close>

definition mark ::
  "provider \<Rightarrow> EmulatorItem \<Rightarrow> run_status \<Rightarrow> string \<Rightarrow> provider \<times> bool" where
  "mark s item newStatus newIcon =
     (if platform item = IOS
      then (case findIOSEmulator (heap s) (iosEmulators s) (item_id item) of
              Some emulator \<Rightarrow>
                (s\<lparr>heap := (heap s)[emulator := (heap s ! emulator)
                               \<lparr>status := newStatus, icon := Some newIcon\<rparr>]\<rparr>, True)
            | None \<Rightarrow> (s, False))
      else (case findIndex (\<lambda>e. item_id (heap s ! e) = item_id item) (androidEmulators s) of
              Some index \<Rightarrow>
                (s\<lparr>heap := (heap s)[androidEmulators s ! index :=
                               (heap s ! (androidEmulators s ! index))
                               \<lparr>status := newStatus, icon := Some newIcon\<rparr>]\<rparr>, True)
            | None \<Rightarrow> (s, False)))"

text \<open>The \<^verbatim>\<open>try\<close> block: the exception it ends with, if any, and the status checks it
  scheduled.\<close>

definition boot :: "world \<Rightarrow> EmulatorItem \<Rightarrow> js_error option \<times> nat list" where
  "boot w item =
     (case (if platform item = IOS \<and> item_udid item \<noteq> None \<and> item_udid item \<noteq> Some []
            then (bootIOSSimulator w (the (item_udid item)), [])
            else if platform item = Android \<and> item_name item \<noteq> None \<and> item_name item \<noteq> Some []
            then (case bootAndroidEmulator w (the (item_name item)) of
                    Some e \<Rightarrow> (Some e, [])
                  | None \<Rightarrow> (None, [1000, 3000, 5000]))
            else (None, []))
      of (Some e, checks) \<Rightarrow> (Some e, checks)
       | (None, checks) \<Rightarrow> (None, checks @ [2000]))"

definition startEmulator :: "world \<Rightarrow> provider \<Rightarrow> ref \<Rightarrow> provider" where
  "startEmulator w s itemRef =
     (let item = heap s ! itemRef
      in if isCategory item \<or> isSubtype item then s
         else if status item = Running then s
         else (case mark s item Starting ''$(sync~spin)'' of
                 (s1, updated) \<Rightarrow>
                   (let s2 = (if updated then s1\<lparr>fired := fired s1 + 1\<rparr> else s1)
                    in case boot w item of
                         (None, checks) \<Rightarrow> s2\<lparr>scheduledChecks := scheduledChecks s2 @ checks\<rparr>
                       | (Some e, checks) \<Rightarrow>
                           (let s3 = s2\<lparr>scheduledChecks := scheduledChecks s2 @ checks,
                                       errorMessages := errorMessages s2 @
                                         [''Failed to start emulator: '' @ error_message e]\<rparr>
                            in case mark s3 item Stopped ''$(circle-outline)'' of
                                 (s4, found) \<Rightarrow>
                                   if found then s4\<lparr>fired := fired s4 + 1\<rparr> else s4))))"

section \<open>Concrete environments\<close>

text \<open>
  A subprocess that cannot be started: the promise rejects with no output. In the
  environments below every subprocess settles 40 milliseconds after its call.
\<close>

definition spawn_failure :: exec_outcome where
  "spawn_failure =
     Rejected \<lparr>rejection_error = JsError ''Error'' ''spawn ENOENT'',
               rejection_stdout = None, rejection_stderr = None\<rparr>"

text \<open>A subprocess that exits with a nonzero code and the given standard error.\<close>

definition exit_failure :: "string \<Rightarrow> exec_outcome" where
  "exit_failure err =
     Rejected \<lparr>rejection_error = JsError ''Error'' ''Command failed'',
               rejection_stdout = Some [], rejection_stderr = Some err\<rparr>"

text \<open>
  The listing of the round-trip property, as \<^verbatim>\<open>JSON.parse\<close> returns it, and the same
  listing under the key \<^verbatim>\<open>devices\<close>, which is where \<^verbatim>\<open>simctl list --json devices\<close> puts it.
\<close>

definition ios17_listing :: json where
  "ios17_listing =
     JObject [(''iOS-17-0'', JArray [JObject
       [(''udid'', JString ''AAAAAAAA-BBBB-CCCC-DDDD-EEEEEEEEEEEE''),
        (''name'', JString ''iPhone 15''),
        (''state'', JString ''Booted''),
        (''deviceTypeIdentifier'', JString ''...iPhone15,2''),
        (''runtime'', JString [])]])]"

definition ios17_response :: json where
  "ios17_response = JObject [(''devices'', ios17_listing)]"

text \<open>
  Two emulators attached to the device bridge, neither of which answers a query for its
  AVD name, and an emulator process started with \<^verbatim>\<open>-avd Pixel_5\<close> in the process table.
\<close>

definition two_devices_output :: string where
  "two_devices_output =
     ''List of devices attached'' @ [CHR 0x0A] @
     ''emulator-5554          offline'' @ [CHR 0x0A] @
     ''emulator-5556          device product:sdk_gphone64 model:sdk_gphone64'' @ [CHR 0x0A, CHR 0x0A]"

definition pixel_process_output :: string where
  "pixel_process_output =
     ''COMMAND'' @ [CHR 0x0A] @
     ''/sdk/emulator/qemu/linux-x86_64/qemu-system-x86_64 -avd Pixel_5 -no-snapshot'' @ [CHR 0x0A]"

definition two_unnamed_devices :: world where
  "two_unnamed_devices =
     \<lparr>os_platform = ''linux'',
      run = (\<lambda>command args t. Settles 40
                (if command = ''adb'' \<and> args = [''devices'', ''-l''] then Resolved two_devices_output []
                 else if command = ''ps'' then Resolved pixel_process_output []
                 else exit_failure ''error: device offline'')),
      JSON_parse = (\<lambda>s. Inr JNull),
      checkXcodeAvailable = False, checkAndroidAvailable = True,
      getAndroidEmulatorPath = Some ''emulator'', getAndroidAdbPath = Some ''adb'',
      spawn_error = (\<lambda>command args. None)\<rparr>"


text \<open>
  One emulator attached, which reports the AVD name \<^verbatim>\<open>Tablet_API_33\<close> and whose services
  answer, and the same process table.
\<close>

definition one_device_output :: string where
  "one_device_output =
     ''List of devices attached'' @ [CHR 0x0A] @
     ''emulator-5554          device product:sdk_gphone64'' @ [CHR 0x0A, CHR 0x0A]"

definition one_other_device :: world where
  "one_other_device =
     \<lparr>os_platform = ''linux'',
      run = (\<lambda>command args t. Settles 40
                (if command = ''adb'' \<and> args = [''devices'', ''-l''] then Resolved one_device_output []
                 else if command = ''adb'' \<and> args = [''-s'', ''emulator-5554'', ''emu'', ''avd'', ''name'']
                 then Resolved (''Tablet_API_33'' @ [CHR 0x0D, CHR 0x0A] @ ''OK'' @ [CHR 0x0D, CHR 0x0A]) []
                 else if command = ''adb'' \<and> args = [''-s'', ''emulator-5554'', ''shell'', ''service'', ''list'']
                 then Resolved ''Found 1 services'' []
                 else if command = ''ps'' then Resolved pixel_process_output []
                 else if command = ''emulator'' \<and> args = [''-list-avds'']
                 then Resolved (''Tablet_API_33'' @ [CHR 0x0A]) []
                 else exit_failure [])),
      JSON_parse = (\<lambda>s. Inr JNull),
      checkXcodeAvailable = False, checkAndroidAvailable = True,
      getAndroidEmulatorPath = Some ''emulator'', getAndroidAdbPath = Some ''adb'',
      spawn_error = (\<lambda>command args. None)\<rparr>"

text \<open>
  The same machine before the emulator was started: the AVD is listed, no device is
  attached and no emulator process runs.
\<close>

definition no_device_output :: string where
  "no_device_output = ''List of devices attached'' @ [CHR 0x0A, CHR 0x0A]"

definition tablet_not_started :: world where
  "tablet_not_started =
     \<lparr>os_platform = ''linux'',
      run = (\<lambda>command args t. Settles 40
                (if command = ''adb'' \<and> args = [''devices'', ''-l''] then Resolved no_device_output []
                 else if command = ''ps'' then Resolved (''COMMAND'' @ [CHR 0x0A]) []
                 else if command = ''emulator'' \<and> args = [''-list-avds'']
                 then Resolved (''Tablet_API_33'' @ [CHR 0x0A]) []
                 else exit_failure [])),
      JSON_parse = (\<lambda>s. Inr JNull),
      checkXcodeAvailable = False, checkAndroidAvailable = True,
      getAndroidEmulatorPath = Some ''emulator'', getAndroidAdbPath = Some ''adb'',
      spawn_error = (\<lambda>command args. None)\<rparr>"

text \<open>A Mac on which \<^verbatim>\<open>simctl boot\<close> fails with the given standard error.\<close>

definition mac_boot_fails :: "string \<Rightarrow> world" where
  "mac_boot_fails err =
     \<lparr>os_platform = ''darwin'',
      run = (\<lambda>command args t. Settles 40
                (if command = ''xcrun'' \<and> take 2 args = [''simctl'', ''boot'']
                 then exit_failure err
                 else spawn_failure)),
      JSON_parse = (\<lambda>s. Inr JNull),
      checkXcodeAvailable = True, checkAndroidAvailable = False,
      getAndroidEmulatorPath = None, getAndroidAdbPath = None,
      spawn_error = (\<lambda>command args. None)\<rparr>"



text \<open>
  A Mac with both tool chains: \<^verbatim>\<open>simctl\<close> lists the one simulator of \<open>ios17_response\<close>, the
  emulator lists one AVD, no device is attached and no emulator process runs.
\<close>

definition mac_with_tablet :: world where
  "mac_with_tablet =
     \<lparr>os_platform = ''darwin'',
      run = (\<lambda>command args t. Settles 40
                (if command = ''xcrun'' \<and> args = [''simctl'', ''list'', ''--json'', ''devices'']
                 then Resolved ''{...}'' []
                 else if command = ''adb'' \<and> args = [''devices'', ''-l''] then Resolved no_device_output []
                 else if command = ''ps'' then Resolved (''COMMAND'' @ [CHR 0x0A]) []
                 else if command = ''emulator'' \<and> args = [''-list-avds'']
                 then Resolved (''Tablet_API_33'' @ [CHR 0x0A]) []
                 else exit_failure [])),
      JSON_parse = (\<lambda>s. Inr ios17_response),
      checkXcodeAvailable = True, checkAndroidAvailable = True,
      getAndroidEmulatorPath = Some ''emulator'', getAndroidAdbPath = Some ''adb'',
      spawn_error = (\<lambda>command args. None)\<rparr>"
section \<open>Vocabulary of the store's properties\<close>

text \<open>
  A store is well formed when every reference it holds, in the two arrays and in the
  children of the subtype items, is the index of an object of the heap.
\<close>

definition wf_provider :: "provider \<Rightarrow> bool" where
  "wf_provider s =
     (list_all (\<lambda>r. r < length (heap s)) (iosEmulators s) \<and>
      list_all (\<lambda>r. r < length (heap s)) (ios_children (heap s) (iosEmulators s)) \<and>
      list_all (\<lambda>r. r < length (heap s)) (androidEmulators s))"

text \<open>
  The run states that the probes of an environment report for the record with a given id:
  Running or Stopped for each listed simulator with that id, and the resolver's answer for
  each listed AVD with that id.
\<close>

definition probed_statuses :: "world \<Rightarrow> string \<Rightarrow> run_status list" where
  "probed_statuses w ident =
     (case listIOSSimulators w of
        Inr sims \<Rightarrow>
          map (\<lambda>sim. if isSimulatorBooted sim then Running else Stopped)
            (filter (\<lambda>sim. ''ios-'' @ sim_udid sim = ident) sims)
      | Inl e \<Rightarrow> []) @
     (case listAndroidEmulators w of
        Inr avds \<Rightarrow>
          map (\<lambda>emu. getAndroidEmulatorStatus w (emu_name emu))
            (filter (\<lambda>emu. ''android-'' @ emu_name emu = ident) avds)
      | Inl e \<Rightarrow> [])"

text \<open>A provider as its constructor leaves it before the first refresh.\<close>

definition new_provider :: provider where
  "new_provider =
     \<lparr>heap = [], iosEmulators = [], iosEmulatorsBySubtype = [], androidEmulators = [],
      fired = 0, errorMessages = [], scheduledChecks = []\<rparr>"

text \<open>
  The store after the first refresh on the machine \<open>tablet_not_started\<close>, and a store that
  holds the one simulator of the machines \<open>mac_boot_fails\<close> under its subtype item.
\<close>

definition tablet_store :: provider where
  "tablet_store =
     \<lparr>heap = [placeholder_item ''ios-unavailable'' ''Xcode not available'' IOS ''$(warning)'',
              android_item ''android-Tablet_API_33''
                \<lparr>emu_name = ''Tablet_API_33'', emu_status = Stopped\<rparr> Stopped ''$(circle-outline)''],
      iosEmulators = [0], iosEmulatorsBySubtype = [], androidEmulators = [1],
      fired = 1, errorMessages = [], scheduledChecks = []\<rparr>"

definition iphone_store :: provider where
  "iphone_store =
     \<lparr>heap = [ios_item ''ios-AAAAAAAA-BBBB-CCCC-DDDD-EEEEEEEEEEEE''
                \<lparr>sim_udid = ''AAAAAAAA-BBBB-CCCC-DDDD-EEEEEEEEEEEE'', sim_name = ''iPhone 15'',
                 sim_state = ''Shutdown'', sim_deviceTypeIdentifier = ''iPhone-15'',
                 sim_runtime = ''iOS-17-0''\<rparr>
                Stopped ''$(circle-outline)'' IPhone (Some ''17.0''),
              subtype_item IPhone [0]],
      iosEmulators = [1], iosEmulatorsBySubtype = [(IPhone, [0])], androidEmulators = [],
      fired = 1, errorMessages = [], scheduledChecks = []\<rparr>"

text \<open>
  \<open>status_moves S h0 h\<close>: the heap \<open>h\<close> comes from \<open>h0\<close> by allocations and by updates
  that keep every id and move a run state only to a state that \<open>S\<close> allows for the id.
\<close>

definition status_moves ::
  "(string \<Rightarrow> run_status set) \<Rightarrow> EmulatorItem list \<Rightarrow> EmulatorItem list \<Rightarrow> bool" where
  "status_moves S h0 h =
     (length h0 \<le> length h \<and>
      (\<forall>r < length h0.
         item_id (h ! r) = item_id (h0 ! r) \<and>
         (status (h ! r) = status (h0 ! r) \<or> status (h ! r) \<in> S (item_id (h0 ! r)))))"

text \<open>
  What the refresh makes of the record of a listed simulator or AVD, and the records on
  which it has nothing to change.
\<close>

definition ios_settle :: "IOSSimulator \<Rightarrow> EmulatorItem \<Rightarrow> EmulatorItem" where
  "ios_settle sim item =
     item\<lparr>status := (if isSimulatorBooted sim then Running else Stopped),
          icon := Some (if isSimulatorBooted sim then ''$(circle-filled)'' else ''$(circle-outline)''),
          iosVersion := extractIOSVersion (sim_runtime sim)\<rparr>"

definition ios_target :: "IOSSimulator \<Rightarrow> EmulatorItem \<Rightarrow> bool" where
  "ios_target sim item = (ios_settle sim item = item)"

definition android_settle :: "world \<Rightarrow> AndroidEmulator \<Rightarrow> EmulatorItem \<Rightarrow> EmulatorItem" where
  "android_settle w emu item =
     item\<lparr>status := getAndroidEmulatorStatus w (emu_name emu),
          icon := Some (status_icon (getAndroidEmulatorStatus w (emu_name emu)))\<rparr>"

definition android_target :: "world \<Rightarrow> AndroidEmulator \<Rightarrow> EmulatorItem \<Rightarrow> bool" where
  "android_target w emu item = (android_settle w emu item = item)"

text \<open>The group of a key in a \<^verbatim>\<open>Map\<close> of arrays, empty when the key is absent.\<close>

definition group_of :: "('k \<times> 'v list) list \<Rightarrow> 'k \<Rightarrow> 'v list" where
  "group_of m k = (case map_of m k of Some g \<Rightarrow> g | None \<Rightarrow> [])"

text \<open>The number of subtype items that a listing of simulators gives rise to.\<close>

definition ios_count :: "IOSSimulator list \<Rightarrow> nat" where
  "ios_count sims =
     length (filter (\<lambda>st. st \<in> getIOSDeviceSubtype ` set sims) subtypeOrder)"

text \<open>
  A store is settled for the listings of an environment when a refresh finds a record for
  every listed device, has nothing to change on it, and builds arrays of the lengths the
  store has.
\<close>

definition settled ::
  "world \<Rightarrow> IOSSimulator list \<Rightarrow> AndroidEmulator list \<Rightarrow> provider \<Rightarrow> bool" where
  "settled w sims avds s =
     ((\<forall>sim \<in> set sims. \<exists>e.
         map_of (existing_by_id (heap s) (ios_children (heap s) (iosEmulators s)))
           (''ios-'' @ sim_udid sim) = Some e \<and>
         ios_target sim (heap s ! e)) \<and>
      (\<forall>emu \<in> set avds. \<exists>e.
         map_of (existing_by_id (heap s) (androidEmulators s)) (''android-'' @ emu_name emu) = Some e \<and>
         e < length (heap s) \<and> android_target w emu (heap s ! e)) \<and>
      length (iosEmulators s) = ios_count sims \<and>
      length (androidEmulators s) = length avds)"

text \<open>
  The invariants of the two loops of a refresh that starts from the heap \<open>h0\<close>. The ids of
  the old objects stay; every reference collected so far is the index of a record of a
  device already visited, on which nothing is left to change; and every device already
  visited has such a record. The loop over the AVDs also leaves an old object as it was
  unless it carries the id of a visited AVD.
\<close>

definition ios_inv ::
  "EmulatorItem list \<Rightarrow> EmulatorItem list \<Rightarrow> (IOSDeviceSubtype \<times> ref list) list
    \<Rightarrow> IOSSimulator list \<Rightarrow> bool" where
  "ios_inv h0 h m visited =
     (length h0 \<le> length h \<and>
      (\<forall>r < length h0. item_id (h ! r) = item_id (h0 ! r)) \<and>
      (\<forall>st. \<forall>r \<in> set (group_of m st).
         r < length h \<and>
         (\<exists>sim \<in> set visited. item_id (h ! r) = ''ios-'' @ sim_udid sim \<and> ios_target sim (h ! r))) \<and>
      (\<forall>sim \<in> set visited. \<exists>st. \<exists>r \<in> set (group_of m st).
         item_id (h ! r) = ''ios-'' @ sim_udid sim))"

definition android_inv ::
  "world \<Rightarrow> EmulatorItem list \<Rightarrow> EmulatorItem list \<Rightarrow> ref list \<Rightarrow> AndroidEmulator list
    \<Rightarrow> bool" where
  "android_inv w h0 h items visited =
     (length h0 \<le> length h \<and>
      (\<forall>r < length h0.
         item_id (h ! r) = item_id (h0 ! r) \<and> isSubtype (h ! r) = isSubtype (h0 ! r) \<and>
         children (h ! r) = children (h0 ! r) \<and>
         ((\<forall>emu \<in> set visited. item_id (h0 ! r) \<noteq> ''android-'' @ emu_name emu) \<longrightarrow>
            h ! r = h0 ! r)) \<and>
      (\<forall>r \<in> set items.
         r < length h \<and>
         (\<exists>emu \<in> set visited. item_id (h ! r) = ''android-'' @ emu_name emu \<and>
            android_target w emu (h ! r))) \<and>
      (\<forall>emu \<in> set visited. \<exists>r \<in> set items. item_id (h ! r) = ''android-'' @ emu_name emu))"

section \<open>Properties of the command runner and the validators\<close>

lemma is_avd_char_alphabet:
  "is_avd_char c \<longleftrightarrow>
     c \<in> set ''abcdefghijklmnopqrstuvwxyzABCDEFGHIJKLMNOPQRSTUVWXYZ0123456789_-''"
  by (cases c) (simp add: is_avd_char_def less_eq_char_def)

text \<open>
  Claim C7. The AVD-name validator accepts exactly the strings of 1 to 99 characters drawn
  from the letters, the digits, the underscore and the hyphen: it rejects the empty string,
  every string of 100 or more characters, and every string with a character outside that
  set.
\<close>

theorem validateAVDName_exact:
  "validateAVDName name \<longleftrightarrow>
     (1 \<le> length name \<and> length name \<le> 99 \<and>
      (\<forall>c \<in> set name.
         c \<in> set ''abcdefghijklmnopqrstuvwxyzABCDEFGHIJKLMNOPQRSTUVWXYZ0123456789_-''))"
proof -
  have "validateAVDName name \<longleftrightarrow>
      (1 \<le> length name \<and> length name \<le> 99 \<and> (\<forall>c \<in> set name. is_avd_char c))"
    unfolding validateAVDName_def avdNameRegex_test_def list_all_iff
    by (cases name) auto
  thus ?thesis
    by (simp only: is_avd_char_alphabet)
qed

theorem validateAVDName_exact_witness:
  "validateAVDName ''Pixel_5-API30'' \<and> \<not> validateAVDName '''' \<and>
   \<not> validateAVDName ''Pixel 5'' \<and> \<not> validateAVDName ''a/b'' \<and>
   \<not> validateAVDName (replicate 100 (CHR ''a'')) \<and> validateAVDName (replicate 99 (CHR ''a''))"
  using validateAVDName_exact [of "''Pixel_5-API30''"] validateAVDName_exact [of "''''"]
    validateAVDName_exact [of "''Pixel 5''"] validateAVDName_exact [of "''a/b''"]
    validateAVDName_exact [of "replicate 100 (CHR ''a'')"]
    validateAVDName_exact [of "replicate 99 (CHR ''a'')"]
  by simp

text \<open>
  Claim C10. A caller cannot disable the deadline with a zero timeout: for every command
  and argument list, a timeout of 0 and an omitted timeout both give the default of 30
  seconds, which is what the subprocess and the timer are started with, so the call
  behaves as the call with a timeout of 30000.
\<close>

theorem executeCommand_zero_timeout_is_default:
  "effective_timeout (with_timeout 0) = 30000 \<and>
   effective_timeout no_options = 30000 \<and>
   executeCommand exec command args (with_timeout 0)
     = executeCommand exec command args (with_timeout 30000) \<and>
   executeCommand exec command args no_options
     = executeCommand exec command args (with_timeout 30000)"
  by (simp add: executeCommand_def effective_timeout_def with_timeout_def no_options_def
      DEFAULT_TIMEOUT_def)



section \<open>Properties of the iOS inventory parser\<close>

lemma first_match_empty [simp]: "m [] = None \<Longrightarrow> first_match m [] = None"
  by simp

text \<open>
  Claim C8. The version extractor tries the three patterns in order: the text of the
  pattern \<^verbatim>\<open>OS-name space version\<close> when it matches; otherwise the two numbers of the slug
  pattern \<^verbatim>\<open>OS-name-major-minor\<close> joined by a dot when that matches; otherwise the first
  bare \<^verbatim>\<open>major.minor[.patch]\<close>; and no version when all three fail. In particular the
  watchOS 10-2 runtime identifier gives 10.2, \<^verbatim>\<open>iOS 16.4\<close> gives 16.4 and \<^verbatim>\<open>garbage\<close>
  gives none.
\<close>

theorem extractIOSVersion_order:
  "(simpleMatch runtime = Some v \<longrightarrow> extractIOSVersion runtime = Some v) \<and>
   (simpleMatch runtime = None \<and> identifierMatch runtime = Some (major, minor) \<longrightarrow>
      extractIOSVersion runtime = Some (major @ ''.'' @ minor)) \<and>
   (simpleMatch runtime = None \<and> identifierMatch runtime = None \<longrightarrow>
      extractIOSVersion runtime = versionMatch runtime) \<and>
   (simpleMatch runtime = None \<and> identifierMatch runtime = None \<and> versionMatch runtime = None
      \<longrightarrow> extractIOSVersion runtime = None) \<and>
   extractIOSVersion ''com.apple.CoreSimulator.SimRuntime.watchOS-10-2'' = Some ''10.2'' \<and>
   extractIOSVersion ''iOS 16.4'' = Some ''16.4'' \<and>
   extractIOSVersion ''garbage'' = None"
proof -
  have empty: "simpleMatch [] = None" "identifierMatch [] = None" "versionMatch [] = None"
    by (simp_all add: simpleMatch_def identifierMatch_def versionMatch_def simple_at_def
        identifier_at_def version_at_def os_name_at_def toLowerCase_def)
  have order: "extractIOSVersion runtime =
      (case simpleMatch runtime of
         Some v \<Rightarrow> Some v
       | None \<Rightarrow>
           (case identifierMatch runtime of
              Some (major, minor) \<Rightarrow> Some (major @ ''.'' @ minor)
            | None \<Rightarrow> versionMatch runtime))"
    by (cases "runtime = []") (simp_all add: extractIOSVersion_def empty)
  have watch: "extractIOSVersion ''com.apple.CoreSimulator.SimRuntime.watchOS-10-2'' = Some ''10.2''"
    by code_simp
  have ios: "extractIOSVersion ''iOS 16.4'' = Some ''16.4''"
    by code_simp
  have garbage: "extractIOSVersion ''garbage'' = None"
    by code_simp
  show ?thesis
    by (simp add: order watch ios garbage)
qed

theorem extractIOSVersion_order_witness:
  "simpleMatch ''iOS 16.4'' = Some ''16.4'' \<and>
   extractIOSVersion ''iOS 16.4'' = Some ''16.4'' \<and>
   simpleMatch ''tvOS-17-2'' = None \<and> identifierMatch ''tvOS-17-2'' = Some (''17'', ''2'') \<and>
   extractIOSVersion ''tvOS-17-2'' = Some ''17.2'' \<and>
   simpleMatch ''v 9.3.1'' = None \<and> identifierMatch ''v 9.3.1'' = None \<and>
   versionMatch ''v 9.3.1'' = Some ''9.3.1'' \<and> extractIOSVersion ''v 9.3.1'' = Some ''9.3.1''"
proof -
  have a: "simpleMatch ''iOS 16.4'' = Some ''16.4''"
    by code_simp
  have b: "simpleMatch ''tvOS-17-2'' = None" "identifierMatch ''tvOS-17-2'' = Some (''17'', ''2'')"
    by code_simp+
  have c: "simpleMatch ''v 9.3.1'' = None" "identifierMatch ''v 9.3.1'' = None"
    "versionMatch ''v 9.3.1'' = Some ''9.3.1''"
    by code_simp+
  show ?thesis
    using extractIOSVersion_order [of "''iOS 16.4''" "''16.4''"]
      extractIOSVersion_order [of "''tvOS-17-2''" _ "''17''" "''2''"]
      extractIOSVersion_order [of "''v 9.3.1''"]
    by (simp add: a b c)
qed

text \<open>
  The listing of claim C3 as it is written, with the runtime identifier as the outermost
  key: the parser reads the runtimes under the key \<^verbatim>\<open>devices\<close>, finds none and returns no
  record.
\<close>

theorem parseIOSSimulatorList_bare_listing:
  "parseIOSSimulatorList (\<lambda>text. Inr ios17_listing) ''{...}'' = Inr []"
  by (simp add: parseIOSSimulatorList_def ios17_listing_def)

text \<open>
  Claim C3, amended. A response that holds the listing of the claim under the key
  \<^verbatim>\<open>devices\<close> yields exactly one record: its runtime is defaulted to \<^verbatim>\<open>iOS-17-0\<close>, the key
  it stands under, its category is the phone category, its version is 17.0, and it is
  classified as running, its state being \<^verbatim>\<open>Booted\<close>.
\<close>

theorem parseIOSSimulatorList_round_trip:
  assumes "parse text = Inr ios17_response"
  shows "\<exists>sim. parseIOSSimulatorList parse text = Inr [sim] \<and>
           sim_runtime sim = ''iOS-17-0'' \<and>
           getIOSDeviceSubtype sim = IPhone \<and>
           extractIOSVersion (sim_runtime sim) = Some ''17.0'' \<and>
           isSimulatorBooted sim"
proof -
  let ?sim = "\<lparr>sim_udid = ''AAAAAAAA-BBBB-CCCC-DDDD-EEEEEEEEEEEE'', sim_name = ''iPhone 15'',
      sim_state = ''Booted'', sim_deviceTypeIdentifier = ''...iPhone15,2'',
      sim_runtime = ''iOS-17-0''\<rparr>"
  have "parseIOSSimulatorList parse text = Inr [?sim]"
    using assms
    by (simp add: parseIOSSimulatorList_def ios17_listing_def ios17_response_def
        devices_of_entry_def with_runtime_def string_field_def)
  moreover have "getIOSDeviceSubtype ?sim = IPhone"
    by code_simp
  moreover have "extractIOSVersion ''iOS-17-0'' = Some ''17.0''"
    by code_simp
  moreover have "isSimulatorBooted ?sim"
    by (simp add: isSimulatorBooted_def)
  ultimately show ?thesis
    by simp
qed

theorem parseIOSSimulatorList_round_trip_witness:
  "\<exists>sim. parseIOSSimulatorList (\<lambda>text. Inr ios17_response) ''{...}'' = Inr [sim] \<and>
         sim_runtime sim = ''iOS-17-0'' \<and>
         getIOSDeviceSubtype sim = IPhone \<and>
         extractIOSVersion (sim_runtime sim) = Some ''17.0'' \<and>
         isSimulatorBooted sim"
  using parseIOSSimulatorList_round_trip [of "\<lambda>text. Inr ios17_response" "''{...}''"]
  by simp

section \<open>Properties of the Android status resolver\<close>






text \<open>
  Claim C1, part (c), evaluated on the code. Two emulator devices are attached, the
  queries for the AVD name fail for both, and the process table shows the requested AVD.
  The map of running emulators has an entry per resolved name, not per attached device;
  no name was resolved, so the map is empty and its size is 0. The resolver then takes the
  branch written for no attached device and returns Starting, where the claim, and the
  branch that the resolver has for several devices, say Stopped.
\<close>

theorem ambiguity_scenario_is_starting:
  "attached_emulators two_unnamed_devices (adb_command two_unnamed_devices)
     = [(''emulator-5554'', ''offline''), (''emulator-5556'', ''device'')] \<and>
   getEmulatorAVDName two_unnamed_devices (adb_command two_unnamed_devices) ''emulator-5554'' = None \<and>
   getEmulatorAVDName two_unnamed_devices (adb_command two_unnamed_devices) ''emulator-5556'' = None \<and>
   getAVDNameFromProcesses two_unnamed_devices ''Pixel_5'' \<and>
   getAndroidEmulatorStatus two_unnamed_devices ''Pixel_5'' = Starting"
proof -
  have "attached_emulators two_unnamed_devices (adb_command two_unnamed_devices)
     = [(''emulator-5554'', ''offline''), (''emulator-5556'', ''device'')]"
    by code_simp
  moreover have
    "getEmulatorAVDName two_unnamed_devices (adb_command two_unnamed_devices) ''emulator-5554'' = None"
    by code_simp
  moreover have
    "getEmulatorAVDName two_unnamed_devices (adb_command two_unnamed_devices) ''emulator-5556'' = None"
    by code_simp
  moreover have "getAVDNameFromProcesses two_unnamed_devices ''Pixel_5''"
    by code_simp
  moreover have "getAndroidEmulatorStatus two_unnamed_devices ''Pixel_5'' = Starting"
    by code_simp
  ultimately show ?thesis
    by simp
qed




section \<open>Properties of the store: boot requests\<close>

lemma heap_update_shape:
  "item_id ((h[r := (h ! r)\<lparr>status := a, icon := b\<rparr>]) ! i) = item_id (h ! i) \<and>
   isSubtype ((h[r := (h ! r)\<lparr>status := a, icon := b\<rparr>]) ! i) = isSubtype (h ! i) \<and>
   children ((h[r := (h ! r)\<lparr>status := a, icon := b\<rparr>]) ! i) = children (h ! i)"
  by (cases "r < length h"; cases "i = r") (simp_all add: list_update_beyond)

lemma find_in_subtypes_shape:
  assumes "\<And>i. item_id (h' ! i) = item_id (h ! i)"
    and "\<And>i. isSubtype (h' ! i) = isSubtype (h ! i)"
    and "\<And>i. children (h' ! i) = children (h ! i)"
  shows "find_in_subtypes h' ident rs = find_in_subtypes h ident rs"
  by (induction rs) (simp_all add: assms cong: option.case_cong)

lemma findIOSEmulator_after_update:
  "findIOSEmulator (h[r := (h ! r)\<lparr>status := a, icon := b\<rparr>]) subtypeItems ident
     = findIOSEmulator h subtypeItems ident"
  unfolding findIOSEmulator_def
  by (rule find_in_subtypes_shape) (simp_all add: heap_update_shape)

lemma validateUDID_nonempty: "validateUDID u \<Longrightarrow> u \<noteq> []"
  by (auto simp: validateUDID_def)

lemma mark_ios:
  assumes "platform item = IOS"
  shows "mark s item a b =
     (case findIOSEmulator (heap s) (iosEmulators s) (item_id item) of
        Some emulator \<Rightarrow>
          (s\<lparr>heap := (heap s)[emulator := (heap s ! emulator)\<lparr>status := a, icon := Some b\<rparr>]\<rparr>, True)
      | None \<Rightarrow> (s, False))"
  using assms by (simp add: mark_def)

text \<open>
  Claim C6. Let the item of a boot request be an iOS item that is neither a category nor
  a subtype, is not running, and has a valid UDID, on a machine with the Xcode tools, and
  let the boot subprocess fail. If its standard error contains \<^verbatim>\<open>already booted\<close>, then
  \<^verbatim>\<open>bootIOSSimulator\<close> returns normally, no error message is shown, and the record of the
  item's id in the store keeps the optimistic status Starting. Otherwise
  \<^verbatim>\<open>bootIOSSimulator\<close> throws, one error message with the failure is shown, and the record
  is rolled back to Stopped.
\<close>

theorem boot_failure_handling:
  assumes "\<not> isCategory (heap s ! itemRef)" and "\<not> isSubtype (heap s ! itemRef)"
    and "status (heap s ! itemRef) \<noteq> Running"
    and "platform (heap s ! itemRef) = IOS"
    and "item_udid (heap s ! itemRef) = Some u"
    and "validateUDID u"
    and "checkXcodeAvailable w"
    and "\<not> success (executeCommand (run w) ''xcrun'' [''simctl'', ''boot'', u] no_options)"
    and "findIOSEmulator (heap s) (iosEmulators s) (item_id (heap s ! itemRef)) = Some r"
    and "r < length (heap s)"
  shows "(str_includes (stderr (executeCommand (run w) ''xcrun'' [''simctl'', ''boot'', u] no_options))
            ''already booted'' \<longrightarrow>
          bootIOSSimulator w u = None \<and>
          errorMessages (startEmulator w s itemRef) = errorMessages s \<and>
          status (heap (startEmulator w s itemRef) ! r) = Starting \<and>
          icon (heap (startEmulator w s itemRef) ! r) = Some ''$(sync~spin)'') \<and>
         (\<not> str_includes (stderr (executeCommand (run w) ''xcrun'' [''simctl'', ''boot'', u] no_options))
            ''already booted'' \<longrightarrow>
          bootIOSSimulator w u
            = Some (JsError ''Error'' (''Failed to boot simulator: '' @
                failure_text (executeCommand (run w) ''xcrun'' [''simctl'', ''boot'', u] no_options))) \<and>
          errorMessages (startEmulator w s itemRef)
            = errorMessages s @ [''Failed to start emulator: Failed to boot simulator: '' @
                failure_text (executeCommand (run w) ''xcrun'' [''simctl'', ''boot'', u] no_options)] \<and>
          status (heap (startEmulator w s itemRef) ! r) = Stopped \<and>
          icon (heap (startEmulator w s itemRef) ! r) = Some ''$(circle-outline)'')"
proof -
  let ?item = "heap s ! itemRef"
  let ?result = "executeCommand (run w) ''xcrun'' [''simctl'', ''boot'', u] no_options"
  let ?s1 = "s\<lparr>heap := (heap s)[r := (heap s ! r)\<lparr>status := Starting, icon := Some ''$(sync~spin)''\<rparr>]\<rparr>"
  have nonempty: "u \<noteq> []"
    using assms(6) by (rule validateUDID_nonempty)
  have marked: "mark s ?item Starting ''$(sync~spin)'' = (?s1, True)"
    using assms(4,9) by (simp add: mark_ios)
  have boot_eq: "boot w ?item =
      (case bootIOSSimulator w u of Some e \<Rightarrow> (Some e, []) | None \<Rightarrow> (None, [2000]))"
    using assms(4,5) nonempty by (simp add: boot_def split: option.splits)
  have benign: "bootIOSSimulator w u = None" if "str_includes (stderr ?result) ''already booted''"
    using that assms(6,7,8) by (simp add: bootIOSSimulator_def Let_def)
  have thrown: "bootIOSSimulator w u
      = Some (JsError ''Error'' (''Failed to boot simulator: '' @ failure_text ?result))"
    if "\<not> str_includes (stderr ?result) ''already booted''"
    using that assms(6,7,8) by (simp add: bootIOSSimulator_def Let_def)
  have kept: "errorMessages (startEmulator w s itemRef) = errorMessages s \<and>
      status (heap (startEmulator w s itemRef) ! r) = Starting \<and>
      icon (heap (startEmulator w s itemRef) ! r) = Some ''$(sync~spin)''"
    if "str_includes (stderr ?result) ''already booted''"
    using assms(1,2,3,10) marked boot_eq benign [OF that]
    by (simp add: startEmulator_def Let_def)
  have rolled_back: "errorMessages (startEmulator w s itemRef)
        = errorMessages s @ [''Failed to start emulator: Failed to boot simulator: '' @
            failure_text ?result] \<and>
      status (heap (startEmulator w s itemRef) ! r) = Stopped \<and>
      icon (heap (startEmulator w s itemRef) ! r) = Some ''$(circle-outline)''"
    if "\<not> str_includes (stderr ?result) ''already booted''"
  proof -
    let ?s3 = "?s1\<lparr>fired := fired s + 1, scheduledChecks := scheduledChecks s @ [],
        errorMessages := errorMessages s @
          [''Failed to start emulator: '' @ (''Failed to boot simulator: '' @ failure_text ?result)]\<rparr>"
    have found_again: "findIOSEmulator (heap ?s3) (iosEmulators ?s3) (item_id ?item) = Some r"
      using assms(9) by (simp add: findIOSEmulator_after_update)
    have "mark ?s3 ?item Stopped ''$(circle-outline)''
        = (?s3\<lparr>heap := (heap ?s3)[r := (heap ?s3 ! r)\<lparr>status := Stopped,
              icon := Some ''$(circle-outline)''\<rparr>]\<rparr>, True)"
      using assms(4) found_again by (simp only: mark_ios option.case)
    thus ?thesis
      using assms(1,2,3,10) marked boot_eq thrown [OF that]
      by (simp add: startEmulator_def Let_def)
  qed
  show ?thesis
    using benign thrown kept rolled_back by blast
qed

lemma mac_boot_fails_result:
  "executeCommand (run (mac_boot_fails err)) ''xcrun'' [''simctl'', ''boot'', u] no_options
     = \<lparr>success = False, stdout = [], stderr = err,
        error = Some (JsError ''Error'' ''Command failed'')\<rparr>"
  by (simp add: mac_boot_fails_def executeCommand_def race_def setTimeout_delay_def
      effective_timeout_def no_options_def DEFAULT_TIMEOUT_def exit_failure_def or_empty_def)

theorem boot_failure_handling_witness:
  "status (heap (startEmulator (mac_boot_fails ''Unable to boot: already booted'') iphone_store 0) ! 0)
     = Starting \<and>
   errorMessages (startEmulator (mac_boot_fails ''Unable to boot: already booted'') iphone_store 0)
     = [] \<and>
   status (heap (startEmulator (mac_boot_fails ''Invalid device'') iphone_store 0) ! 0) = Stopped \<and>
   errorMessages (startEmulator (mac_boot_fails ''Invalid device'') iphone_store 0)
     = [''Failed to start emulator: Failed to boot simulator: Invalid device'']"
proof -
  let ?u = "''AAAAAAAA-BBBB-CCCC-DDDD-EEEEEEEEEEEE''"
  have item: "\<not> isCategory (heap iphone_store ! 0)" "\<not> isSubtype (heap iphone_store ! 0)"
    "status (heap iphone_store ! 0) \<noteq> Running" "platform (heap iphone_store ! 0) = IOS"
    "item_udid (heap iphone_store ! 0) = Some ?u" "0 < length (heap iphone_store)"
    "errorMessages iphone_store = []"
    by (simp_all add: iphone_store_def ios_item_def)
  have found: "findIOSEmulator (heap iphone_store) (iosEmulators iphone_store)
      (item_id (heap iphone_store ! 0)) = Some 0"
    by (simp add: findIOSEmulator_def iphone_store_def ios_item_def subtype_item_def)
  have valid: "validateUDID ?u"
    by code_simp
  have xcode: "checkXcodeAvailable (mac_boot_fails err)" for err
    by (simp add: mac_boot_fails_def)
  have failed: "\<not> success (executeCommand (run (mac_boot_fails err)) ''xcrun''
      [''simctl'', ''boot'', ?u] no_options)" for err
    by (simp add: mac_boot_fails_result)
  have benign: "str_includes ''Unable to boot: already booted'' ''already booted''"
    by code_simp
  have other: "\<not> str_includes ''Invalid device'' ''already booted''"
    by code_simp
  have a: "status (heap (startEmulator (mac_boot_fails ''Unable to boot: already booted'')
        iphone_store 0) ! 0) = Starting \<and>
      errorMessages (startEmulator (mac_boot_fails ''Unable to boot: already booted'')
        iphone_store 0) = []"
    using boot_failure_handling [OF item(1-5) valid xcode failed found item(6),
        of "''Unable to boot: already booted''"] benign
    by (simp only: mac_boot_fails_result CLICommandResult.simps item(7) simp_thms)
  have b: "status (heap (startEmulator (mac_boot_fails ''Invalid device'') iphone_store 0) ! 0)
        = Stopped \<and>
      errorMessages (startEmulator (mac_boot_fails ''Invalid device'') iphone_store 0)
        = [] @ [''Failed to start emulator: Failed to boot simulator: '' @ ''Invalid device'']"
    using boot_failure_handling [OF item(1-5) valid xcode failed found item(6),
        of "''Invalid device''"] other
    by (simp only: mac_boot_fails_result CLICommandResult.simps item(7) simp_thms
        failure_text_def list.simps if_False if_True)
  show ?thesis
    using a b by simp
qed

section \<open>Properties of the store: the transitions of the run state\<close>

lemma find_in_subtypes_id:
  "find_in_subtypes h ident rs = Some e \<Longrightarrow> item_id (h ! e) = ident"
  by (induction rs) (auto split: option.splits if_splits simp: find_Some_iff)

lemma findIndex_Some: "findIndex P xs = Some i \<Longrightarrow> i < length xs \<and> P (xs ! i)"
  by (induction xs arbitrary: i) (auto split: if_splits)

lemma map_of_map_set:
  "map_of (map_set m k v) k' = (if k' = k then Some v else map_of m k')"
  by (induction m) auto

lemma existing_by_id_fold:
  assumes "\<And>k r. map_of m k = Some r \<Longrightarrow> item_id (h ! r) = k \<and> r \<in> A"
    and "map_of (foldl (\<lambda>m r. map_set m (item_id (h ! r)) r) m rs) k = Some r"
  shows "item_id (h ! r) = k \<and> r \<in> A \<union> set rs"
  using assms
proof (induction rs arbitrary: m A)
  case Nil
  then show ?case by simp
next
  case (Cons x xs)
  have "item_id (h ! r) = k \<and> r \<in> (insert x A) \<union> set xs"
  proof (rule Cons.IH)
    show "map_of (foldl (\<lambda>m r. map_set m (item_id (h ! r)) r) (map_set m (item_id (h ! x)) x) xs) k
        = Some r"
      using Cons.prems(2) by simp
  next
    fix k' r'
    assume "map_of (map_set m (item_id (h ! x)) x) k' = Some r'"
    then show "item_id (h ! r') = k' \<and> r' \<in> insert x A"
      using Cons.prems(1) [of k' r'] by (auto simp: map_of_map_set split: if_splits)
  qed
  then show ?case by auto
qed

lemma existing_by_id_Some:
  "map_of (existing_by_id h rs) k = Some r \<Longrightarrow> item_id (h ! r) = k \<and> r \<in> set rs"
  using existing_by_id_fold [of "[]" h "{}" rs k r] by (simp add: existing_by_id_def)

lemma status_moves_refl: "status_moves S h h"
  by (simp add: status_moves_def)

lemma status_moves_append: "status_moves S h0 h \<Longrightarrow> status_moves S h0 (h @ xs)"
  by (auto simp: status_moves_def nth_append)

lemma status_moves_write:
  assumes "status_moves S h0 h" and "r < length h0 \<Longrightarrow> a \<in> S (item_id (h ! r))"
  shows "status_moves S h0 (h[r := (h ! r)\<lparr>status := a, icon := b\<rparr>])"
  unfolding status_moves_def
proof (intro conjI allI impI)
  show "length h0 \<le> length (h[r := (h ! r)\<lparr>status := a, icon := b\<rparr>])"
    using assms(1) by (simp add: status_moves_def)
next
  fix i assume i: "i < length h0"
  then have old: "item_id (h ! i) = item_id (h0 ! i)"
      "status (h ! i) = status (h0 ! i) \<or> status (h ! i) \<in> S (item_id (h0 ! i))"
      "i < length h"
    using assms(1) by (auto simp: status_moves_def)
  show "item_id (h[r := (h ! r)\<lparr>status := a, icon := b\<rparr>] ! i) = item_id (h0 ! i)"
    using old by (cases "i = r") simp_all
  show "status (h[r := (h ! r)\<lparr>status := a, icon := b\<rparr>] ! i) = status (h0 ! i) \<or>
      status (h[r := (h ! r)\<lparr>status := a, icon := b\<rparr>] ! i) \<in> S (item_id (h0 ! i))"
    using old assms(2) i by (cases "i = r") auto
qed

lemma status_moves_version:
  assumes "status_moves S h0 h"
  shows "status_moves S h0 (h[r := (h ! r)\<lparr>iosVersion := v\<rparr>])"
  unfolding status_moves_def
proof (intro conjI allI impI)
  show "length h0 \<le> length (h[r := (h ! r)\<lparr>iosVersion := v\<rparr>])"
    using assms by (simp add: status_moves_def)
next
  fix i assume "i < length h0"
  then have old: "item_id (h ! i) = item_id (h0 ! i)"
      "status (h ! i) = status (h0 ! i) \<or> status (h ! i) \<in> S (item_id (h0 ! i))"
      "i < length h"
    using assms by (auto simp: status_moves_def)
  show "item_id (h[r := (h ! r)\<lparr>iosVersion := v\<rparr>] ! i) = item_id (h0 ! i)"
    using old by (cases "i = r") simp_all
  show "status (h[r := (h ! r)\<lparr>iosVersion := v\<rparr>] ! i) = status (h0 ! i) \<or>
      status (h[r := (h ! r)\<lparr>iosVersion := v\<rparr>] ! i) \<in> S (item_id (h0 ! i))"
    using old by (cases "i = r") auto
qed

lemma status_moves_id:
  "status_moves S h0 h \<Longrightarrow> r < length h0 \<Longrightarrow> item_id (h ! r) = item_id (h0 ! r)"
  by (simp add: status_moves_def)

text \<open>The loops of the status re-check.\<close>

lemma check_ios_step_moves:
  assumes "status_moves S h0 h"
    and "(if isSimulatorBooted sim then Running else Stopped) \<in> S (''ios-'' @ sim_udid sim)"
  shows "status_moves S h0 (fst (check_ios_step items (h, c) sim))"
proof (cases "findIOSEmulator h items (''ios-'' @ sim_udid sim)")
  case None
  then show ?thesis
    using assms(1) by (simp add: check_ios_step_def)
next
  case (Some existing)
  then have "item_id (h ! existing) = ''ios-'' @ sim_udid sim"
    by (simp add: findIOSEmulator_def find_in_subtypes_id)
  then show ?thesis
    using Some assms by (auto simp: check_ios_step_def Let_def intro!: status_moves_write)
qed

lemma check_ios_loop_moves:
  assumes "status_moves S h0 (fst acc)"
    and "\<forall>sim \<in> set sims.
      (if isSimulatorBooted sim then Running else Stopped) \<in> S (''ios-'' @ sim_udid sim)"
  shows "status_moves S h0 (fst (foldl (check_ios_step items) acc sims))"
  using assms
proof (induction sims arbitrary: acc)
  case Nil
  then show ?case by simp
next
  case (Cons sim sims)
  obtain h c where acc: "acc = (h, c)"
    by (cases acc)
  have "status_moves S h0 (fst (check_ios_step items acc sim))"
    using Cons.prems check_ios_step_moves [of S h0 h sim items c] by (simp add: acc)
  then show ?case
    using Cons.IH [of "check_ios_step items acc sim"] Cons.prems(2) by simp
qed

lemma check_android_step_moves:
  assumes "status_moves S h0 h"
    and "getAndroidEmulatorStatus w (emu_name emu) \<in> S (''android-'' @ emu_name emu)"
  shows "status_moves S h0 (fst (check_android_step w items (h, c) emu))"
proof (cases "findIndex (\<lambda>e. item_id (h ! e) = ''android-'' @ emu_name emu) items")
  case None
  then show ?thesis
    using assms(1) by (simp add: check_android_step_def)
next
  case (Some existingIndex)
  then have "item_id (h ! (items ! existingIndex)) = ''android-'' @ emu_name emu"
    using findIndex_Some by fastforce
  then show ?thesis
    using Some assms by (auto simp: check_android_step_def Let_def intro!: status_moves_write)
qed

lemma check_android_loop_moves:
  assumes "status_moves S h0 (fst acc)"
    and "\<forall>emu \<in> set avds.
      getAndroidEmulatorStatus w (emu_name emu) \<in> S (''android-'' @ emu_name emu)"
  shows "status_moves S h0 (fst (foldl (check_android_step w items) acc avds))"
  using assms
proof (induction avds arbitrary: acc)
  case Nil
  then show ?case by simp
next
  case (Cons emu avds)
  obtain h c where acc: "acc = (h, c)"
    by (cases acc)
  have "status_moves S h0 (fst (check_android_step w items acc emu))"
    using Cons.prems check_android_step_moves [of S h0 h w emu items c] by (simp add: acc)
  then show ?case
    using Cons.IH [of "check_android_step w items acc emu"] Cons.prems(2) by simp
qed

lemma probed_ios:
  "listIOSSimulators w = Inr sims \<Longrightarrow> sim \<in> set sims \<Longrightarrow>
   (if isSimulatorBooted sim then Running else Stopped)
     \<in> set (probed_statuses w (''ios-'' @ sim_udid sim))"
  by (auto simp: probed_statuses_def)

lemma probed_android:
  "listAndroidEmulators w = Inr avds \<Longrightarrow> emu \<in> set avds \<Longrightarrow>
   getAndroidEmulatorStatus w (emu_name emu)
     \<in> set (probed_statuses w (''android-'' @ emu_name emu))"
  by (auto simp: probed_statuses_def)

lemma checkStatusChanges_moves:
  "status_moves (\<lambda>ident. set (probed_statuses w ident)) (heap s) (heap (checkStatusChanges w s))"
proof -
  let ?S = "\<lambda>ident. set (probed_statuses w ident)"
  let ?acc1 = "if checkXcodeAvailable w
     then (case listIOSSimulators w of
             Inr iosSimulators \<Rightarrow> foldl (check_ios_step (iosEmulators s)) (heap s, False) iosSimulators
           | Inl e \<Rightarrow> (heap s, False))
     else (heap s, False)"
  let ?acc2 = "if checkAndroidAvailable w
     then (case listAndroidEmulators w of
             Inr avds \<Rightarrow> foldl (check_android_step w (androidEmulators s)) ?acc1 avds
           | Inl e \<Rightarrow> ?acc1)
     else ?acc1"
  have ios: "status_moves ?S (heap s)
      (fst (foldl (check_ios_step (iosEmulators s)) (heap s, False) sims))"
    if "listIOSSimulators w = Inr sims" for sims
  proof (rule check_ios_loop_moves)
    show "status_moves ?S (heap s) (fst (heap s, False))"
      by (simp add: status_moves_refl)
    show "\<forall>sim \<in> set sims. (if isSimulatorBooted sim then Running else Stopped)
        \<in> set (probed_statuses w (''ios-'' @ sim_udid sim))"
      using probed_ios [OF that] by blast
  qed
  have one: "status_moves ?S (heap s) (fst ?acc1)"
    using ios by (simp add: status_moves_refl split: sum.splits)
  have android: "status_moves ?S (heap s)
      (fst (foldl (check_android_step w (androidEmulators s)) ?acc1 avds))"
    if "listAndroidEmulators w = Inr avds" for avds
  proof (rule check_android_loop_moves)
    show "status_moves ?S (heap s) (fst ?acc1)"
      by (rule one)
    show "\<forall>emu \<in> set avds. getAndroidEmulatorStatus w (emu_name emu)
        \<in> set (probed_statuses w (''android-'' @ emu_name emu))"
      using probed_android [OF that] by blast
  qed
  have two: "status_moves ?S (heap s) (fst ?acc2)"
  proof (cases "checkAndroidAvailable w")
    case False
    then show ?thesis
      using one by simp
  next
    case True
    show ?thesis
    proof (cases "listAndroidEmulators w")
      case (Inl e)
      then show ?thesis
        using True one by simp
    next
      case (Inr avds)
      then show ?thesis
        using True android [OF Inr] by simp
    qed
  qed
  have "checkStatusChanges w s =
      (case ?acc2 of (h, hasChanges) \<Rightarrow>
         if hasChanges then s\<lparr>heap := h, fired := fired s + 1\<rparr> else s\<lparr>heap := h\<rparr>)"
    unfolding checkStatusChanges_def Let_def by (rule refl)
  then have "heap (checkStatusChanges w s) = fst ?acc2"
    by (cases ?acc2) simp
  then show ?thesis
    using two by simp
qed

text \<open>The loops of the refresh.\<close>

lemma load_ios_step_moves:
  assumes "status_moves S h0 h"
    and "\<And>k r. map_of existingIOS k = Some r \<Longrightarrow> r < length h0 \<Longrightarrow> item_id (h0 ! r) = k"
    and "(if isSimulatorBooted sim then Running else Stopped) \<in> S (''ios-'' @ sim_udid sim)"
  shows "status_moves S h0 (fst (load_ios_step existingIOS (h, c, m) sim))"
proof (cases "map_of existingIOS (''ios-'' @ sim_udid sim)")
  case None
  then show ?thesis
    using assms(1) by (simp add: load_ios_step_def Let_def status_moves_append)
next
  case (Some existing)
  have ident: "item_id (h ! existing) = ''ios-'' @ sim_udid sim" if "existing < length h0"
    using that assms(1,2) Some by (simp add: status_moves_id)
  have written: "status_moves S h0
      (h[existing := (h ! existing)\<lparr>status := (if isSimulatorBooted sim then Running else Stopped),
           icon := b\<rparr>])" for b
    using assms(1,3) ident by (intro status_moves_write) simp_all
  show ?thesis
    using Some assms(1) written
    by (simp add: load_ios_step_def Let_def status_moves_version)
qed

lemma load_ios_loop_moves:
  assumes "status_moves S h0 (fst acc)"
    and "\<And>k r. map_of existingIOS k = Some r \<Longrightarrow> r < length h0 \<Longrightarrow> item_id (h0 ! r) = k"
    and "\<forall>sim \<in> set sims.
      (if isSimulatorBooted sim then Running else Stopped) \<in> S (''ios-'' @ sim_udid sim)"
  shows "status_moves S h0 (fst (foldl (load_ios_step existingIOS) acc sims))"
  using assms(1,3)
proof (induction sims arbitrary: acc)
  case Nil
  then show ?case by simp
next
  case (Cons sim sims)
  obtain h c m where acc: "acc = (h, c, m)"
    by (cases acc)
  have "status_moves S h0 (fst (load_ios_step existingIOS acc sim))"
    using Cons.prems assms(2) load_ios_step_moves [of S h0 h existingIOS sim c m]
    by (simp add: acc)
  then show ?case
    using Cons.IH [of "load_ios_step existingIOS acc sim"] Cons.prems(2) by simp
qed

lemma subtype_loop_moves:
  "status_moves S h0 (fst acc) \<Longrightarrow>
   status_moves S h0 (fst (foldl (subtype_step subtypeMap) acc order))"
proof (induction order arbitrary: acc)
  case Nil
  then show ?case by simp
next
  case (Cons st order)
  obtain h items where acc: "acc = (h, items)"
    by (cases acc)
  have "status_moves S h0 (fst (subtype_step subtypeMap acc st))"
    using Cons.prems
    by (auto simp: acc subtype_step_def status_moves_append split: option.splits)
  then show ?case
    using Cons.IH [of "subtype_step subtypeMap acc st"] by simp
qed

lemma load_android_step_moves:
  assumes "status_moves S h0 h"
    and "\<And>k r. map_of existingAndroid k = Some r \<Longrightarrow> r < length h0 \<Longrightarrow> item_id (h0 ! r) = k"
    and "getAndroidEmulatorStatus w (emu_name emu) \<in> S (''android-'' @ emu_name emu)"
  shows "status_moves S h0 (fst (load_android_step w existingAndroid (h, c, items) emu))"
proof (cases "map_of existingAndroid (''android-'' @ emu_name emu)")
  case None
  then show ?thesis
    using assms(1) by (simp add: load_android_step_def Let_def status_moves_append)
next
  case (Some existing)
  have ident: "item_id (h ! existing) = ''android-'' @ emu_name emu" if "existing < length h0"
    using that assms(1,2) Some by (simp add: status_moves_id)
  have "status_moves S h0
      (h[existing := (h ! existing)\<lparr>status := getAndroidEmulatorStatus w (emu_name emu),
           icon := b\<rparr>])" for b
    using assms(1,3) ident by (intro status_moves_write) simp_all
  then show ?thesis
    using Some assms(1) by (simp add: load_android_step_def Let_def)
qed

lemma load_android_loop_moves:
  assumes "status_moves S h0 (fst acc)"
    and "\<And>k r. map_of existingAndroid k = Some r \<Longrightarrow> r < length h0 \<Longrightarrow> item_id (h0 ! r) = k"
    and "\<forall>emu \<in> set avds.
      getAndroidEmulatorStatus w (emu_name emu) \<in> S (''android-'' @ emu_name emu)"
  shows "status_moves S h0 (fst (foldl (load_android_step w existingAndroid) acc avds))"
  using assms(1,3)
proof (induction avds arbitrary: acc)
  case Nil
  then show ?case by simp
next
  case (Cons emu avds)
  obtain h c items where acc: "acc = (h, c, items)"
    by (cases acc)
  have "status_moves S h0 (fst (load_android_step w existingAndroid acc emu))"
    using Cons.prems assms(2) load_android_step_moves [of S h0 h existingAndroid w emu c items]
    by (simp add: acc)
  then show ?case
    using Cons.IH [of "load_android_step w existingAndroid acc emu"] Cons.prems(2) by simp
qed

lemma load_ios_moves:
  "status_moves (\<lambda>ident. set (probed_statuses w ident)) (heap s) (fst (load_ios w s))"
proof -
  let ?S = "\<lambda>ident. set (probed_statuses w ident)"
  let ?E = "existing_by_id (heap s) (ios_children (heap s) (iosEmulators s))"
  have loop: "status_moves ?S (heap s)
      (fst (foldl (subtype_step (snd (snd (foldl (load_ios_step ?E) (heap s, False, []) sims))))
         (fst (foldl (load_ios_step ?E) (heap s, False, []) sims), []) subtypeOrder))"
    if "listIOSSimulators w = Inr sims" for sims
  proof (rule subtype_loop_moves)
    have "status_moves ?S (heap s) (fst (foldl (load_ios_step ?E) (heap s, False, []) sims))"
    proof (rule load_ios_loop_moves)
      show "status_moves ?S (heap s) (fst (heap s, False, []))"
        by (simp add: status_moves_refl)
      show "item_id (heap s ! r) = k" if "map_of ?E k = Some r" for k r
        using that by (simp add: existing_by_id_Some)
      show "\<forall>sim \<in> set sims. (if isSimulatorBooted sim then Running else Stopped)
          \<in> set (probed_statuses w (''ios-'' @ sim_udid sim))"
        using probed_ios [OF \<open>listIOSSimulators w = Inr sims\<close>] by blast
    qed
    then show "status_moves ?S (heap s)
        (fst (fst (foldl (load_ios_step ?E) (heap s, False, []) sims), []))"
      by simp
  qed
  show ?thesis
  proof (cases "checkXcodeAvailable w")
    case False
    then show ?thesis
      by (simp add: load_ios_def Let_def status_moves_refl status_moves_append)
  next
    case True
    show ?thesis
    proof (cases "listIOSSimulators w")
      case (Inl e)
      then show ?thesis
        using True by (simp add: load_ios_def Let_def status_moves_refl status_moves_append)
    next
      case (Inr sims)
      obtain h1 c m where first: "foldl (load_ios_step ?E) (heap s, False, []) sims = (h1, c, m)"
        by (cases "foldl (load_ios_step ?E) (heap s, False, []) sims")
      obtain h2 items where second: "foldl (subtype_step m) (h1, []) subtypeOrder = (h2, items)"
        by (cases "foldl (subtype_step m) (h1, []) subtypeOrder")
      have "load_ios w s = (h2, c, items, m)"
        using True Inr first second by (simp add: load_ios_def Let_def)
      then show ?thesis
        using loop [OF Inr] first second by simp
    qed
  qed
qed

lemma load_android_moves:
  assumes "status_moves (\<lambda>ident. set (probed_statuses w ident)) (heap s) h"
  shows "status_moves (\<lambda>ident. set (probed_statuses w ident)) (heap s)
    (fst (load_android w s (h, c)))"
proof -
  let ?S = "\<lambda>ident. set (probed_statuses w ident)"
  let ?E = "existing_by_id (heap s) (androidEmulators s)"
  have loop: "status_moves ?S (heap s)
      (fst (foldl (load_android_step w ?E) (h, c, []) avds))"
    if "listAndroidEmulators w = Inr avds" for avds
  proof (rule load_android_loop_moves)
    show "status_moves ?S (heap s) (fst (h, c, []))"
      using assms by simp
    show "item_id (heap s ! r) = k" if "map_of ?E k = Some r" for k r
      using that by (simp add: existing_by_id_Some)
    show "\<forall>emu \<in> set avds. getAndroidEmulatorStatus w (emu_name emu)
        \<in> set (probed_statuses w (''android-'' @ emu_name emu))"
      using probed_android [OF \<open>listAndroidEmulators w = Inr avds\<close>] by blast
  qed
  show ?thesis
  proof (cases "checkAndroidAvailable w")
    case False
    then show ?thesis
      using assms by (simp add: load_android_def Let_def status_moves_append)
  next
    case True
    show ?thesis
    proof (cases "listAndroidEmulators w")
      case (Inl e)
      then show ?thesis
        using True assms by (simp add: load_android_def Let_def status_moves_append)
    next
      case (Inr avds)
      then show ?thesis
        using True loop [OF Inr] by (simp add: load_android_def Let_def)
    qed
  qed
qed

lemma loadEmulators_moves:
  "status_moves (\<lambda>ident. set (probed_statuses w ident)) (heap s) (heap (loadEmulators w s))"
proof -
  obtain h1 c1 iosItems bySubtype where ios: "load_ios w s = (h1, c1, iosItems, bySubtype)"
    by (cases "load_ios w s")
  obtain h2 c2 androidItems where android: "load_android w s (h1, c1) = (h2, c2, androidItems)"
    by (cases "load_android w s (h1, c1)")
  have "status_moves (\<lambda>ident. set (probed_statuses w ident)) (heap s) h1"
    using load_ios_moves [of w s] by (simp add: ios)
  then have "status_moves (\<lambda>ident. set (probed_statuses w ident)) (heap s) h2"
    using load_android_moves [of w s h1 c1] by (simp add: android)
  then show ?thesis
    by (simp add: loadEmulators_def ios android)
qed

text \<open>Boot requests.\<close>

lemma mark_status:
  "length (heap (fst (mark s item a b))) = length (heap s) \<and>
   status (heap (fst (mark s item a b)) ! r) \<in> {status (heap s ! r), a} \<and>
   errorMessages (fst (mark s item a b)) = errorMessages s"
proof -
  have updated_cell: "status ((h :: EmulatorItem list)[e := (h ! e)\<lparr>status := a, icon := Some b\<rparr>] ! r)
      \<in> {status (h ! r), a}" for h e
    by (cases "e < length h"; cases "r = e") (simp_all add: list_update_beyond)
  show ?thesis
    using updated_cell by (simp add: mark_def split: option.splits)
qed

lemma startEmulator_status:
  "status (heap (startEmulator w s itemRef) ! r) \<in> {status (heap s ! r), Starting, Stopped} \<and>
   (status (heap s ! itemRef) = Running \<longrightarrow> startEmulator w s itemRef = s) \<and>
   (errorMessages (startEmulator w s itemRef) = errorMessages s \<longrightarrow>
      status (heap (startEmulator w s itemRef) ! r) \<in> {status (heap s ! r), Starting})"
proof -
  let ?item = "heap s ! itemRef"
  obtain s1 updated where m1: "mark s ?item Starting ''$(sync~spin)'' = (s1, updated)"
    by (cases "mark s ?item Starting ''$(sync~spin)''")
  have s1: "status (heap s1 ! r) \<in> {status (heap s ! r), Starting}"
      "errorMessages s1 = errorMessages s"
    using mark_status [of s ?item Starting "''$(sync~spin)''" r] by (simp_all add: m1)
  show ?thesis
  proof (cases "isCategory ?item \<or> isSubtype ?item \<or> status ?item = Running")
    case True
    then show ?thesis
      by (auto simp: startEmulator_def Let_def)
  next
    case False
    obtain e checks where b: "boot w ?item = (e, checks)"
      by (cases "boot w ?item")
    show ?thesis
    proof (cases e)
      case None
      then show ?thesis
        using False m1 s1 b by (auto simp: startEmulator_def Let_def)
    next
      case (Some err)
      define s3 where "s3 =
        (if updated then s1\<lparr>fired := fired s1 + 1\<rparr> else s1)
          \<lparr>scheduledChecks := scheduledChecks (if updated then s1\<lparr>fired := fired s1 + 1\<rparr> else s1)
             @ checks,
           errorMessages := errorMessages (if updated then s1\<lparr>fired := fired s1 + 1\<rparr> else s1)
             @ [''Failed to start emulator: '' @ error_message err]\<rparr>"
      have s3: "heap s3 = heap s1"
          "errorMessages s3 = errorMessages s1 @ [''Failed to start emulator: '' @ error_message err]"
        by (simp_all add: s3_def)
      obtain s4 found where m2: "mark s3 ?item Stopped ''$(circle-outline)'' = (s4, found)"
        by (cases "mark s3 ?item Stopped ''$(circle-outline)''")
      have s4: "status (heap s4 ! r) \<in> {status (heap s3 ! r), Stopped}"
          "errorMessages s4 = errorMessages s3"
        using mark_status [of s3 ?item Stopped "''$(circle-outline)''" r] by (simp_all add: m2)
      have "startEmulator w s itemRef =
          (case mark s3 ?item Stopped ''$(circle-outline)'' of
             (s4, found) \<Rightarrow> if found then s4\<lparr>fired := fired s4 + 1\<rparr> else s4)"
        unfolding s3_def using False m1 b Some by (simp add: startEmulator_def Let_def)
      then have result:
        "startEmulator w s itemRef = (if found then s4\<lparr>fired := fired s4 + 1\<rparr> else s4)"
        by (simp add: m2)
      have "errorMessages (startEmulator w s itemRef) \<noteq> errorMessages s"
        using result s4(2) s3(2) s1(2) by (auto split: if_splits)
      moreover have "status (heap (startEmulator w s itemRef) ! r)
          \<in> {status (heap s ! r), Starting, Stopped}"
        using result s4(1) s3(1) s1(1) by (auto split: if_splits)
      ultimately show ?thesis
        using False by auto
    qed
  qed
qed

lemma tablet_not_started_probes:
  "\<not> checkXcodeAvailable tablet_not_started"
  "checkAndroidAvailable tablet_not_started"
  "listAndroidEmulators tablet_not_started
     = Inr [\<lparr>emu_name = ''Tablet_API_33'', emu_status = Stopped\<rparr>]"
  "getAndroidEmulatorStatus tablet_not_started ''Tablet_API_33'' = Stopped"
  by code_simp+

lemma one_other_device_probes:
  "\<not> checkXcodeAvailable one_other_device"
  "checkAndroidAvailable one_other_device"
  "listAndroidEmulators one_other_device
     = Inr [\<lparr>emu_name = ''Tablet_API_33'', emu_status = Stopped\<rparr>]"
  "getAndroidEmulatorStatus one_other_device ''Tablet_API_33'' = Running"
  by code_simp+

lemma first_refresh: "loadEmulators tablet_not_started new_provider = tablet_store"
  by (simp add: loadEmulators_def load_ios_def load_android_def load_android_step_def
      tablet_not_started_probes new_provider_def tablet_store_def existing_by_id_def
      ios_children_def status_icon_def)

text \<open>
  A transition outside the state machine of claim C4: the store holds the record of an AVD
  as Stopped, the emulator is then started outside the editor, and the next status
  re-check finds it fully booted and sets the record to Running, without passing through
  Starting.
\<close>

theorem recheck_moves_stopped_to_running:
  "item_id (heap tablet_store ! 1) = ''android-Tablet_API_33'' \<and>
   status (heap tablet_store ! 1) = Stopped \<and>
   status (heap (checkStatusChanges one_other_device tablet_store) ! 1) = Running"
  by (simp add: checkStatusChanges_def check_android_step_def one_other_device_probes
      tablet_store_def status_icon_def placeholder_item_def android_item_def)

text \<open>
  Claim C4, amended. A store operation changes the run state of a record only as follows.
  The full refresh and the status re-check set it to a state that the probes report for
  the record's id, whatever the state before: Running or Stopped for a listed simulator,
  the resolver's answer for a listed AVD. A boot request sets it to Starting, or back to
  Stopped and then only together with an error message; it changes nothing when the item
  is Running.
\<close>

theorem runState_transitions:
  assumes "r < length (heap s)"
  shows "(status (heap (checkStatusChanges w s) ! r) = status (heap s ! r) \<or>
          status (heap (checkStatusChanges w s) ! r)
            \<in> set (probed_statuses w (item_id (heap s ! r)))) \<and>
         (status (heap (loadEmulators w s) ! r) = status (heap s ! r) \<or>
          status (heap (loadEmulators w s) ! r)
            \<in> set (probed_statuses w (item_id (heap s ! r)))) \<and>
         status (heap (startEmulator w s itemRef) ! r) \<in> {status (heap s ! r), Starting, Stopped} \<and>
         (status (heap s ! itemRef) = Running \<longrightarrow> startEmulator w s itemRef = s) \<and>
         (errorMessages (startEmulator w s itemRef) = errorMessages s \<longrightarrow>
            status (heap (startEmulator w s itemRef) ! r) \<in> {status (heap s ! r), Starting})"
proof -
  have "status (heap (checkStatusChanges w s) ! r) = status (heap s ! r) \<or>
      status (heap (checkStatusChanges w s) ! r) \<in> set (probed_statuses w (item_id (heap s ! r)))"
    using checkStatusChanges_moves [of w s] assms by (simp add: status_moves_def)
  moreover have "status (heap (loadEmulators w s) ! r) = status (heap s ! r) \<or>
      status (heap (loadEmulators w s) ! r) \<in> set (probed_statuses w (item_id (heap s ! r)))"
    using loadEmulators_moves [of w s] assms by (simp add: status_moves_def)
  ultimately show ?thesis
    using startEmulator_status [of w s itemRef r] by blast
qed

theorem runState_transitions_witness:
  "1 < length (heap tablet_store) \<and>
   status (heap tablet_store ! 1) = Stopped \<and>
   status (heap (checkStatusChanges one_other_device tablet_store) ! 1) = Running \<and>
   Running \<in> set (probed_statuses one_other_device (item_id (heap tablet_store ! 1))) \<and>
   status (heap (startEmulator tablet_not_started tablet_store 1) ! 1) \<in> {Stopped, Starting}"
proof -
  have len: "1 < length (heap tablet_store)"
    by (simp add: tablet_store_def)
  have before: "status (heap tablet_store ! 1) = Stopped"
    by (simp add: tablet_store_def android_item_def)
  have after: "status (heap (checkStatusChanges one_other_device tablet_store) ! 1) = Running"
    by (simp add: checkStatusChanges_def check_android_step_def one_other_device_probes
        tablet_store_def status_icon_def placeholder_item_def android_item_def)
  show ?thesis
    using runState_transitions [OF len, of one_other_device 1]
      runState_transitions [OF len, of tablet_not_started 1] before after len
    by auto
qed

section \<open>Properties of the store: the refresh\<close>

lemma ios_settle_simps [simp]:
  "item_id (ios_settle sim item) = item_id item"
  "isSubtype (ios_settle sim item) = isSubtype item"
  "children (ios_settle sim item) = children item"
  "ios_settle sim (ios_settle sim' item) = ios_settle sim item"
  by (simp_all add: ios_settle_def)

lemma android_settle_simps [simp]:
  "item_id (android_settle w emu item) = item_id item"
  "isSubtype (android_settle w emu item) = isSubtype item"
  "children (android_settle w emu item) = children item"
  "android_settle w emu (android_settle w emu' item) = android_settle w emu item"
  by (simp_all add: android_settle_def)

lemma ios_target_settle [simp]: "ios_target sim (ios_settle sim item)"
  by (simp add: ios_target_def)

lemma android_target_settle [simp]: "android_target w emu (android_settle w emu item)"
  by (simp add: android_target_def)

lemma ios_target_iff:
  "ios_target sim item \<longleftrightarrow>
     status item = (if isSimulatorBooted sim then Running else Stopped) \<and>
     icon item = Some (if isSimulatorBooted sim then ''$(circle-filled)'' else ''$(circle-outline)'') \<and>
     iosVersion item = extractIOSVersion (sim_runtime sim)"
proof
  assume "ios_target sim item"
  then have eq: "ios_settle sim item = item"
    by (simp add: ios_target_def)
  have "status (ios_settle sim item) = (if isSimulatorBooted sim then Running else Stopped)"
    "icon (ios_settle sim item)
       = Some (if isSimulatorBooted sim then ''$(circle-filled)'' else ''$(circle-outline)'')"
    "iosVersion (ios_settle sim item) = extractIOSVersion (sim_runtime sim)"
    by (simp_all add: ios_settle_def)
  then show "status item = (if isSimulatorBooted sim then Running else Stopped) \<and>
     icon item = Some (if isSimulatorBooted sim then ''$(circle-filled)'' else ''$(circle-outline)'') \<and>
     iosVersion item = extractIOSVersion (sim_runtime sim)"
    by (simp only: eq simp_thms)
next
  assume "status item = (if isSimulatorBooted sim then Running else Stopped) \<and>
     icon item = Some (if isSimulatorBooted sim then ''$(circle-filled)'' else ''$(circle-outline)'') \<and>
     iosVersion item = extractIOSVersion (sim_runtime sim)"
  then show "ios_target sim item"
    by (cases item) (simp add: ios_target_def ios_settle_def)
qed

lemma android_target_iff:
  "android_target w emu item \<longleftrightarrow>
     status item = getAndroidEmulatorStatus w (emu_name emu) \<and>
     icon item = Some (status_icon (getAndroidEmulatorStatus w (emu_name emu)))"
proof
  assume "android_target w emu item"
  then have eq: "android_settle w emu item = item"
    by (simp add: android_target_def)
  have "status (android_settle w emu item) = getAndroidEmulatorStatus w (emu_name emu)"
    "icon (android_settle w emu item) = Some (status_icon (getAndroidEmulatorStatus w (emu_name emu)))"
    by (simp_all add: android_settle_def)
  then show "status item = getAndroidEmulatorStatus w (emu_name emu) \<and>
     icon item = Some (status_icon (getAndroidEmulatorStatus w (emu_name emu)))"
    by (simp only: eq simp_thms)
next
  assume "status item = getAndroidEmulatorStatus w (emu_name emu) \<and>
     icon item = Some (status_icon (getAndroidEmulatorStatus w (emu_name emu)))"
  then show "android_target w emu item"
    by (cases item) (simp add: android_target_def android_settle_def)
qed

text \<open>The two loop bodies of the refresh, in one equation each.\<close>

lemma ios_settle_in_two_steps:
  fixes x :: EmulatorItem and sim :: IOSSimulator
  defines "a \<equiv> (if isSimulatorBooted sim then Running else Stopped)"
    and "b \<equiv> (if isSimulatorBooted sim then ''$(circle-filled)'' else ''$(circle-outline)'')"
    and "v \<equiv> extractIOSVersion (sim_runtime sim)"
  defines "x1 \<equiv> (if status x \<noteq> a \<or> icon x \<noteq> Some b then x\<lparr>status := a, icon := Some b\<rparr> else x)"
  shows "(if iosVersion x1 \<noteq> v then x1\<lparr>iosVersion := v\<rparr> else x1) = ios_settle sim x"
    and "((status x \<noteq> a \<or> icon x \<noteq> Some b) \<or> iosVersion x1 \<noteq> v) \<longleftrightarrow> \<not> ios_target sim x"
proof -
  have target: "ios_target sim x \<longleftrightarrow> status x = a \<and> icon x = Some b \<and> iosVersion x = v"
    unfolding a_def b_def v_def by (rule ios_target_iff)
  have settle: "ios_settle sim x = x\<lparr>status := a, icon := Some b, iosVersion := v\<rparr>"
    unfolding a_def b_def v_def by (simp add: ios_settle_def)
  have version: "iosVersion x1 = iosVersion x"
    by (simp add: x1_def)
  show "((status x \<noteq> a \<or> icon x \<noteq> Some b) \<or> iosVersion x1 \<noteq> v) \<longleftrightarrow> \<not> ios_target sim x"
    by (auto simp: target version)
  show "(if iosVersion x1 \<noteq> v then x1\<lparr>iosVersion := v\<rparr> else x1) = ios_settle sim x"
    unfolding settle version x1_def by (cases x) auto
qed

lemma load_ios_step_existing:
  assumes "map_of existingIOS (''ios-'' @ sim_udid sim) = Some e"
  shows "load_ios_step existingIOS (h, c, m) sim =
    (h[e := ios_settle sim (h ! e)], c \<or> \<not> ios_target sim (h ! e),
     push_to m (getIOSDeviceSubtype sim) e)"
proof -
  let ?a = "if isSimulatorBooted sim then Running else Stopped"
  let ?b = "if isSimulatorBooted sim then ''$(circle-filled)'' else ''$(circle-outline)''"
  let ?v = "extractIOSVersion (sim_runtime sim)"
  let ?changed = "status (h ! e) \<noteq> ?a \<or> icon (h ! e) \<noteq> Some ?b"
  let ?x1 = "if ?changed then (h ! e)\<lparr>status := ?a, icon := Some ?b\<rparr> else h ! e"
  let ?h1 = "if ?changed then h[e := (h ! e)\<lparr>status := ?a, icon := Some ?b\<rparr>] else h"
  let ?h2 = "if iosVersion (?h1 ! e) \<noteq> ?v then ?h1[e := (?h1 ! e)\<lparr>iosVersion := ?v\<rparr>] else ?h1"
  have step: "load_ios_step existingIOS (h, c, m) sim =
      (?h2, c \<or> ?changed \<or> iosVersion (?h1 ! e) \<noteq> ?v, push_to m (getIOSDeviceSubtype sim) e)"
    using assms unfolding load_ios_step_def Let_def by simp
  show ?thesis
  proof (cases "e < length h")
    case False
    then have beyond: "h[e := x] = h" for x
      by (simp add: list_update_beyond)
    have "(?changed \<or> iosVersion (h ! e) \<noteq> ?v) \<longleftrightarrow> \<not> ios_target sim (h ! e)"
      by (auto simp: ios_target_iff)
    then show ?thesis
      by (simp add: step beyond)
  next
    case True
    define x1 where "x1 = ?x1"
    define h1 where "h1 = ?h1"
    have h1_eq: "h1 = h[e := x1]"
      unfolding h1_def x1_def by simp
    have h1_nth: "h1 ! e = x1"
      using True by (simp add: h1_eq)
    have h2: "(if iosVersion x1 \<noteq> ?v then h1[e := x1\<lparr>iosVersion := ?v\<rparr>] else h1)
        = h[e := (if iosVersion x1 \<noteq> ?v then x1\<lparr>iosVersion := ?v\<rparr> else x1)]"
      by (simp add: h1_eq)
    have settle: "(if iosVersion x1 \<noteq> ?v then x1\<lparr>iosVersion := ?v\<rparr> else x1)
        = ios_settle sim (h ! e)"
      unfolding x1_def by (rule ios_settle_in_two_steps(1))
    have flag: "(?changed \<or> iosVersion x1 \<noteq> ?v) \<longleftrightarrow> \<not> ios_target sim (h ! e)"
      unfolding x1_def by (rule ios_settle_in_two_steps(2))
    have "load_ios_step existingIOS (h, c, m) sim =
        (if iosVersion (h1 ! e) \<noteq> ?v then h1[e := (h1 ! e)\<lparr>iosVersion := ?v\<rparr>] else h1,
         c \<or> ?changed \<or> iosVersion (h1 ! e) \<noteq> ?v, push_to m (getIOSDeviceSubtype sim) e)"
      unfolding h1_def by (rule step)
    then show ?thesis
      by (simp only: h1_nth h2 settle flag)
  qed
qed

lemma load_ios_step_new:
  assumes "map_of existingIOS (''ios-'' @ sim_udid sim) = None"
  shows "load_ios_step existingIOS (h, c, m) sim =
    (h @ [ios_settle sim (ios_item (''ios-'' @ sim_udid sim) sim Stopped [] (getIOSDeviceSubtype sim) None)],
     True, push_to m (getIOSDeviceSubtype sim) (length h))"
  using assms by (simp add: load_ios_step_def Let_def ios_settle_def ios_item_def)

lemma load_android_step_existing:
  assumes "map_of existingAndroid (''android-'' @ emu_name emu) = Some e"
  shows "load_android_step w existingAndroid (h, c, items) emu =
    (h[e := android_settle w emu (h ! e)], c \<or> \<not> android_target w emu (h ! e), items @ [e])"
proof -
  have "h[e := android_settle w emu (h ! e)] = h" if "android_target w emu (h ! e)"
    using that by (simp add: android_target_def)
  then show ?thesis
    using assms
    by (auto simp: load_android_step_def Let_def android_target_iff android_settle_def)
qed

lemma load_android_step_new:
  assumes "map_of existingAndroid (''android-'' @ emu_name emu) = None"
  shows "load_android_step w existingAndroid (h, c, items) emu =
    (h @ [android_settle w emu (android_item (''android-'' @ emu_name emu) emu Stopped [])],
     True, items @ [length h])"
  using assms by (simp add: load_android_step_def Let_def android_settle_def android_item_def)

text \<open>
  A loop of the refresh leaves \<^verbatim>\<open>hasChanges\<close> false exactly when it was false before and
  every listed device has a record on which nothing is to change; the heap is then the
  same after the loop.
\<close>

lemma load_ios_loop_unchanged:
  assumes "foldl (load_ios_step E) (h, c, m) sims = (h', c', m')"
  shows "(\<not> c' \<longleftrightarrow>
           \<not> c \<and> (\<forall>sim \<in> set sims. \<exists>e. map_of E (''ios-'' @ sim_udid sim) = Some e \<and>
                      ios_target sim (h ! e))) \<and>
         (\<not> c' \<longrightarrow> h' = h)"
  using assms
proof (induction sims arbitrary: h c m)
  case Nil
  then show ?case by simp
next
  case (Cons sim sims)
  show ?case
  proof (cases "map_of E (''ios-'' @ sim_udid sim)")
    case None
    then have "foldl (load_ios_step E)
        (h @ [ios_settle sim (ios_item (''ios-'' @ sim_udid sim) sim Stopped []
                (getIOSDeviceSubtype sim) None)],
         True, push_to m (getIOSDeviceSubtype sim) (length h)) sims = (h', c', m')"
      using Cons.prems by (simp only: foldl_Cons load_ios_step_new)
    then have "c'"
      using Cons.IH by blast
    then show ?thesis
      using None by simp
  next
    case (Some e)
    let ?h1 = "h[e := ios_settle sim (h ! e)]"
    have rest: "foldl (load_ios_step E)
        (?h1, c \<or> \<not> ios_target sim (h ! e), push_to m (getIOSDeviceSubtype sim) e) sims
        = (h', c', m')"
      using Cons.prems Some by (simp only: foldl_Cons load_ios_step_existing)
    note ih = Cons.IH [OF rest]
    have same: "?h1 = h" if "ios_target sim (h ! e)"
      using that by (simp add: ios_target_def)
    show ?thesis
    proof (cases "ios_target sim (h ! e)")
      case True
      then show ?thesis
        using ih Some same by simp
    next
      case False
      then show ?thesis
        using ih Some by auto
    qed
  qed
qed

lemma load_android_loop_unchanged:
  assumes "foldl (load_android_step w E) (h, c, items) avds = (h', c', items')"
  shows "(\<not> c' \<longleftrightarrow>
           \<not> c \<and> (\<forall>emu \<in> set avds. \<exists>e. map_of E (''android-'' @ emu_name emu) = Some e \<and>
                      android_target w emu (h ! e))) \<and>
         (\<not> c' \<longrightarrow> h' = h) \<and>
         length items' = length items + length avds"
  using assms
proof (induction avds arbitrary: h c items)
  case Nil
  then show ?case by simp
next
  case (Cons emu avds)
  show ?case
  proof (cases "map_of E (''android-'' @ emu_name emu)")
    case None
    then have "foldl (load_android_step w E)
        (h @ [android_settle w emu (android_item (''android-'' @ emu_name emu) emu Stopped [])],
         True, items @ [length h]) avds = (h', c', items')"
      using Cons.prems by (simp only: foldl_Cons load_android_step_new)
    then have "c' \<and> length items' = length (items @ [length h]) + length avds"
      using Cons.IH by blast
    then show ?thesis
      using None by simp
  next
    case (Some e)
    let ?h1 = "h[e := android_settle w emu (h ! e)]"
    have rest: "foldl (load_android_step w E)
        (?h1, c \<or> \<not> android_target w emu (h ! e), items @ [e]) avds = (h', c', items')"
      using Cons.prems Some by (simp only: foldl_Cons load_android_step_existing)
    note ih = Cons.IH [OF rest]
    have same: "?h1 = h" if "android_target w emu (h ! e)"
      using that by (simp add: android_target_def)
    show ?thesis
    proof (cases "android_target w emu (h ! e)")
      case True
      then show ?thesis
        using ih Some same by simp
    next
      case False
      then show ?thesis
        using ih Some by auto
    qed
  qed
qed

text \<open>The groups of \<^verbatim>\<open>subtypeMap\<close> and the subtype items made of them.\<close>

lemma map_of_push_to:
  "map_of (push_to m k v) k' = (if k' = k then Some (group_of m k @ [v]) else map_of m k')"
  by (induction m) (auto simp: group_of_def)

lemma group_of_push_to:
  "group_of (push_to m k v) k' = (if k' = k then group_of m k @ [v] else group_of m k')"
  by (simp add: group_of_def map_of_push_to)

lemma group_of_empty [simp]: "group_of [] k = []"
  by (simp add: group_of_def)

lemma load_ios_step_groups:
  "\<exists>r. snd (snd (load_ios_step E (h, c, m) sim)) = push_to m (getIOSDeviceSubtype sim) r"
  by (cases "map_of E (''ios-'' @ sim_udid sim)")
    (auto simp: load_ios_step_new load_ios_step_existing)

lemma load_ios_loop_present:
  assumes "foldl (load_ios_step E) (h, c, m) sims = (h', c', m')"
  shows "group_of m' st \<noteq> [] \<longleftrightarrow> group_of m st \<noteq> [] \<or> st \<in> getIOSDeviceSubtype ` set sims"
  using assms
proof (induction sims arbitrary: h c m)
  case Nil
  then show ?case by simp
next
  case (Cons sim sims)
  obtain h1 c1 m1 where step: "load_ios_step E (h, c, m) sim = (h1, c1, m1)"
    by (cases "load_ios_step E (h, c, m) sim")
  obtain r where m1: "m1 = push_to m (getIOSDeviceSubtype sim) r"
    using load_ios_step_groups [of E h c m sim] step by auto
  have "foldl (load_ios_step E) (h1, c1, m1) sims = (h', c', m')"
    using Cons.prems step by simp
  then have "group_of m' st \<noteq> [] \<longleftrightarrow> group_of m1 st \<noteq> [] \<or> st \<in> getIOSDeviceSubtype ` set sims"
    by (rule Cons.IH)
  then show ?case
    by (auto simp: m1 group_of_push_to)
qed

lemma subtype_step_eq:
  "subtype_step m (h, items) st =
     (if group_of m st \<noteq> [] then (h @ [subtype_item st (group_of m st)], items @ [length h])
      else (h, items))"
  by (auto simp: subtype_step_def group_of_def split: option.splits)

lemma subtype_loop_eq:
  "foldl (subtype_step m) (h, items) order =
     (h @ map (\<lambda>st. subtype_item st (group_of m st)) (filter (\<lambda>st. group_of m st \<noteq> []) order),
      items @ [length h ..< length h + length (filter (\<lambda>st. group_of m st \<noteq> []) order)])"
proof (induction order arbitrary: h items)
  case Nil
  then show ?case by simp
next
  case (Cons st order)
  show ?case
  proof (cases "group_of m st \<noteq> []")
    case False
    then show ?thesis
      using Cons.IH [of h items] by (simp add: subtype_step_eq)
  next
    case True
    let ?n = "length (filter (\<lambda>st. group_of m st \<noteq> []) order)"
    have "[length h ..< Suc (length h + ?n)] = length h # [Suc (length h) ..< Suc (length h + ?n)]"
      by (rule upt_conv_Cons) simp
    then show ?thesis
      using True Cons.IH [of "h @ [subtype_item st (group_of m st)]" "items @ [length h]"]
      by (simp add: subtype_step_eq del: upt_Suc)
  qed
qed

lemma listIOSSimulators_available: "listIOSSimulators w = Inr sims \<Longrightarrow> checkXcodeAvailable w"
  by (auto simp: listIOSSimulators_def split: if_splits)

lemma listAndroidEmulators_available:
  "listAndroidEmulators w = Inr avds \<Longrightarrow> checkAndroidAvailable w"
  by (auto simp: listAndroidEmulators_def split: if_splits)

text \<open>The iOS part of a refresh when both listings succeed, in terms of its first loop.\<close>

lemma load_ios_eq:
  assumes "listIOSSimulators w = Inr sims"
    and "foldl (load_ios_step (existing_by_id (heap s) (ios_children (heap s) (iosEmulators s))))
           (heap s, False, []) sims = (h1, c1, m1)"
  shows "load_ios w s =
    (h1 @ map (\<lambda>st. subtype_item st (group_of m1 st))
            (filter (\<lambda>st. group_of m1 st \<noteq> []) subtypeOrder),
     c1, [length h1 ..< length h1 + ios_count sims], m1)"
proof -
  have present: "group_of m1 st \<noteq> [] \<longleftrightarrow> st \<in> getIOSDeviceSubtype ` set sims" for st
    using load_ios_loop_present [OF assms(2), of st] by simp
  then have "length (filter (\<lambda>st. group_of m1 st \<noteq> []) subtypeOrder) = ios_count sims"
    by (simp add: ios_count_def)
  then show ?thesis
    using assms listIOSSimulators_available [OF assms(1)]
    by (simp add: load_ios_def Let_def subtype_loop_eq)
qed

lemma load_android_eq:
  assumes "listAndroidEmulators w = Inr avds"
  shows "load_android w s (h, c) =
    foldl (load_android_step w (existing_by_id (heap s) (androidEmulators s))) (h, c, []) avds"
  using assms listAndroidEmulators_available [OF assms]
  by (simp add: load_android_def Let_def)

text \<open>A refresh of a settled store allocates subtype items and does nothing else.\<close>

lemma loadEmulators_settled:
  assumes "listIOSSimulators w = Inr sims" and "listAndroidEmulators w = Inr avds"
    and "settled w sims avds s"
  shows "\<exists>ext m. loadEmulators w s = s\<lparr>heap := heap s @ ext, iosEmulatorsBySubtype := m\<rparr>"
proof -
  let ?E = "existing_by_id (heap s) (ios_children (heap s) (iosEmulators s))"
  let ?EA = "existing_by_id (heap s) (androidEmulators s)"
  obtain h1 c1 m1 where ios: "foldl (load_ios_step ?E) (heap s, False, []) sims = (h1, c1, m1)"
    by (cases "foldl (load_ios_step ?E) (heap s, False, []) sims")
  have "\<not> c1 \<and> h1 = heap s"
    using load_ios_loop_unchanged [OF ios] assms(3) by (simp add: settled_def)
  then have c1: "\<not> c1" and h1: "h1 = heap s"
    by simp_all
  define ext where "ext = map (\<lambda>st. subtype_item st (group_of m1 st))
    (filter (\<lambda>st. group_of m1 st \<noteq> []) subtypeOrder)"
  have first: "load_ios w s =
      (heap s @ ext, False, [length (heap s) ..< length (heap s) + ios_count sims], m1)"
    using load_ios_eq [OF assms(1) ios] c1 by (simp add: h1 ext_def)
  obtain h2 c2 items where
    android: "foldl (load_android_step w ?EA) (heap s @ ext, False, []) avds = (h2, c2, items)"
    by (cases "foldl (load_android_step w ?EA) (heap s @ ext, False, []) avds")
  have "\<forall>emu \<in> set avds. \<exists>e. map_of ?EA (''android-'' @ emu_name emu) = Some e \<and>
      android_target w emu ((heap s @ ext) ! e)"
    using assms(3) by (fastforce simp: settled_def nth_append)
  then have "\<not> c2 \<and> h2 = heap s @ ext \<and> length items = length avds"
    using load_android_loop_unchanged [OF android] by simp
  then have second: "load_android w s (heap s @ ext, False) = (heap s @ ext, False, items)"
      and items: "length items = length avds"
    using android by (simp_all add: load_android_eq [OF assms(2)])
  have "length (iosEmulators s) = ios_count sims" "length (androidEmulators s) = length avds"
    using assms(3) by (simp_all add: settled_def)
  then have "loadEmulators w s = s\<lparr>heap := heap s @ ext, iosEmulatorsBySubtype := m1\<rparr>"
    by (simp add: loadEmulators_def first second items)
  then show ?thesis
    by blast
qed

text \<open>The map of the existing items finds an item for every id that occurs.\<close>

lemma existing_by_id_fold_complete:
  "(\<exists>r'. map_of m k = Some r') \<or> k \<in> (\<lambda>r. item_id (h ! r)) ` set rs \<Longrightarrow>
   \<exists>r'. map_of (foldl (\<lambda>m r. map_set m (item_id (h ! r)) r) m rs) k = Some r'"
proof (induction rs arbitrary: m)
  case Nil
  then show ?case by simp
next
  case (Cons x xs)
  have "(\<exists>r'. map_of (map_set m (item_id (h ! x)) x) k = Some r') \<or>
      k \<in> (\<lambda>r. item_id (h ! r)) ` set xs"
    using Cons.prems by (auto simp: map_of_map_set)
  then show ?case
    using Cons.IH [of "map_set m (item_id (h ! x)) x"] by simp
qed

lemma existing_by_id_complete:
  "r \<in> set rs \<Longrightarrow> \<exists>r'. map_of (existing_by_id h rs) (item_id (h ! r)) = Some r'"
  unfolding existing_by_id_def by (rule existing_by_id_fold_complete) simp

lemma existing_by_id_cong:
  assumes "\<And>r. r \<in> set rs \<Longrightarrow> item_id (h' ! r) = item_id (h ! r)"
  shows "existing_by_id h' rs = existing_by_id h rs"
proof -
  have "foldl (\<lambda>m r. map_set m (item_id (h' ! r)) r) m rs
      = foldl (\<lambda>m r. map_set m (item_id (h ! r)) r) m rs" for m
    using assms by (induction rs arbitrary: m) simp_all
  then show ?thesis
    by (simp add: existing_by_id_def)
qed

lemma ios_children_cong:
  assumes "\<And>i. i \<in> set items \<Longrightarrow>
      isSubtype (h' ! i) = isSubtype (h ! i) \<and> children (h' ! i) = children (h ! i)"
  shows "ios_children h' items = ios_children h items"
proof -
  have "map (subtype_children h') items = map (subtype_children h) items"
    using assms by (simp add: subtype_children_def)
  then show ?thesis
    by (simp only: ios_children_def)
qed

lemma wf_existing_ios:
  assumes "wf_provider s"
    and "map_of (existing_by_id (heap s) (ios_children (heap s) (iosEmulators s))) k = Some e"
  shows "e < length (heap s) \<and> item_id (heap s ! e) = k"
  using assms existing_by_id_Some [OF assms(2)] by (auto simp: wf_provider_def list_all_iff)

lemma wf_existing_android:
  assumes "wf_provider s"
    and "map_of (existing_by_id (heap s) (androidEmulators s)) k = Some e"
  shows "e < length (heap s) \<and> item_id (heap s ! e) = k"
  using assms existing_by_id_Some [OF assms(2)] by (auto simp: wf_provider_def list_all_iff)

lemma subtypeOrder_complete: "st \<in> set subtypeOrder"
  by (cases st) (simp_all add: subtypeOrder_def)

text \<open>The first loop of the refresh keeps its invariant.\<close>

lemma item_id_update [simp]:
  "item_id (h[e := ios_settle sim (h ! e)] ! r) = item_id (h ! r)"
  "item_id (h[e := android_settle w emu (h ! e)] ! r) = item_id (h ! r)"
  by (cases "e < length h"; cases "r = e"; simp add: list_update_beyond)+

lemma shape_update [simp]:
  "isSubtype (h[e := android_settle w emu (h ! e)] ! r) = isSubtype (h ! r)"
  "children (h[e := android_settle w emu (h ! e)] ! r) = children (h ! r)"
  by (cases "e < length h"; cases "r = e"; simp add: list_update_beyond)+

lemma load_ios_step_inv:
  assumes inv: "ios_inv h0 h m visited"
    and consistent: "\<And>k e. map_of E k = Some e \<Longrightarrow> e < length h0 \<and> item_id (h0 ! e) = k"
    and fresh: "\<forall>sim' \<in> set visited. sim_udid sim' \<noteq> sim_udid sim"
    and step: "load_ios_step E (h, c, m) sim = (h', c', m')"
  shows "ios_inv h0 h' m' (visited @ [sim])"
proof -
  let ?ident = "''ios-'' @ sim_udid sim"
  let ?st = "getIOSDeviceSubtype sim"
  have len: "length h0 \<le> length h"
    and ids: "\<And>r. r < length h0 \<Longrightarrow> item_id (h ! r) = item_id (h0 ! r)"
    and old: "\<And>st r. r \<in> set (group_of m st) \<Longrightarrow>
        r < length h \<and> (\<exists>sim' \<in> set visited. item_id (h ! r) = ''ios-'' @ sim_udid sim' \<and>
          ios_target sim' (h ! r))"
    and seen: "\<And>sim'. sim' \<in> set visited \<Longrightarrow>
        \<exists>st. \<exists>r \<in> set (group_of m st). item_id (h ! r) = ''ios-'' @ sim_udid sim'"
    using inv by (auto simp: ios_inv_def)
  have other: "item_id (h ! r) \<noteq> ?ident" if "r \<in> set (group_of m st)" for r st
    using old [OF that] fresh by auto
  show ?thesis
  proof (cases "map_of E ?ident")
    case None
    let ?x = "ios_settle sim (ios_item ?ident sim Stopped [] ?st None)"
    have result: "h' = h @ [?x]" "m' = push_to m ?st (length h)"
      using step None by (simp_all add: load_ios_step_new)
    have x: "item_id ?x = ?ident" "ios_target sim ?x"
      by (simp_all add: ios_item_def)
    show ?thesis
      unfolding ios_inv_def result
    proof (intro conjI allI ballI impI)
      show "length h0 \<le> length (h @ [?x])"
        using len by simp
    next
      fix r assume "r < length h0"
      then show "item_id ((h @ [?x]) ! r) = item_id (h0 ! r)"
        using len ids by (simp add: nth_append)
    next
      fix st r assume "r \<in> set (group_of (push_to m ?st (length h)) st)"
      then consider "r \<in> set (group_of m st)" | "r = length h"
        by (auto simp: group_of_push_to split: if_splits)
      then show "r < length (h @ [?x])"
      proof cases
        case 1
        then show ?thesis using old [OF 1] by simp
      next
        case 2
        then show ?thesis by simp
      qed
    next
      fix st r assume "r \<in> set (group_of (push_to m ?st (length h)) st)"
      then consider "r \<in> set (group_of m st)" | "r = length h"
        by (auto simp: group_of_push_to split: if_splits)
      then show "\<exists>sim' \<in> set (visited @ [sim]).
          item_id ((h @ [?x]) ! r) = ''ios-'' @ sim_udid sim' \<and> ios_target sim' ((h @ [?x]) ! r)"
      proof cases
        case 1
        then show ?thesis
          using old [OF 1] by (auto simp: nth_append)
      next
        case 2
        then show ?thesis
          using x by auto
      qed
    next
      fix sim' assume "sim' \<in> set (visited @ [sim])"
      then consider "sim' \<in> set visited" | "sim' = sim"
        by auto
      then show "\<exists>st. \<exists>r \<in> set (group_of (push_to m ?st (length h)) st).
          item_id ((h @ [?x]) ! r) = ''ios-'' @ sim_udid sim'"
      proof cases
        case 1
        then obtain st r where r: "r \<in> set (group_of m st)"
            "item_id (h ! r) = ''ios-'' @ sim_udid sim'"
          using seen by blast
        then have "r \<in> set (group_of (push_to m ?st (length h)) st)"
            "item_id ((h @ [?x]) ! r) = ''ios-'' @ sim_udid sim'"
          using old [OF r(1)] by (auto simp: group_of_push_to nth_append)
        then show ?thesis by blast
      next
        case 2
        have "length h \<in> set (group_of (push_to m ?st (length h)) ?st)"
          by (simp add: group_of_push_to)
        then show ?thesis
          using 2 x by (intro exI [of _ ?st] bexI [of _ "length h"]) simp_all
      qed
    qed
  next
    case (Some e)
    have result: "h' = h[e := ios_settle sim (h ! e)]" "m' = push_to m ?st e"
      using step Some by (simp_all add: load_ios_step_existing)
    have e: "e < length h" "item_id (h ! e) = ?ident"
      using consistent [OF Some] len ids by simp_all
    have untouched: "h[e := ios_settle sim (h ! e)] ! r = h ! r" if "r \<in> set (group_of m st)" for r st
      using other [OF that] e by (cases "r = e") simp_all
    show ?thesis
      unfolding ios_inv_def result
    proof (intro conjI allI ballI impI)
      show "length h0 \<le> length (h[e := ios_settle sim (h ! e)])"
        using len by simp
    next
      fix r assume "r < length h0"
      then show "item_id (h[e := ios_settle sim (h ! e)] ! r) = item_id (h0 ! r)"
        using ids by simp
    next
      fix st r assume "r \<in> set (group_of (push_to m ?st e) st)"
      then consider "r \<in> set (group_of m st)" | "r = e"
        by (auto simp: group_of_push_to split: if_splits)
      then show "r < length (h[e := ios_settle sim (h ! e)])"
      proof cases
        case 1
        then show ?thesis using old [OF 1] by simp
      next
        case 2
        then show ?thesis using e by simp
      qed
    next
      fix st r assume "r \<in> set (group_of (push_to m ?st e) st)"
      then consider "r \<in> set (group_of m st)" | "r = e"
        by (auto simp: group_of_push_to split: if_splits)
      then show "\<exists>sim' \<in> set (visited @ [sim]).
          item_id (h[e := ios_settle sim (h ! e)] ! r) = ''ios-'' @ sim_udid sim' \<and>
          ios_target sim' (h[e := ios_settle sim (h ! e)] ! r)"
      proof cases
        case 1
        then show ?thesis
          using old [OF 1] untouched [OF 1] by auto
      next
        case 2
        then show ?thesis
          using e by auto
      qed
    next
      fix sim' assume "sim' \<in> set (visited @ [sim])"
      then consider "sim' \<in> set visited" | "sim' = sim"
        by auto
      then show "\<exists>st. \<exists>r \<in> set (group_of (push_to m ?st e) st).
          item_id (h[e := ios_settle sim (h ! e)] ! r) = ''ios-'' @ sim_udid sim'"
      proof cases
        case 1
        then obtain st r where r: "r \<in> set (group_of m st)"
            "item_id (h ! r) = ''ios-'' @ sim_udid sim'"
          using seen by blast
        then have "r \<in> set (group_of (push_to m ?st e) st)"
            "item_id (h[e := ios_settle sim (h ! e)] ! r) = ''ios-'' @ sim_udid sim'"
          by (auto simp: group_of_push_to)
        then show ?thesis by blast
      next
        case 2
        have "e \<in> set (group_of (push_to m ?st e) ?st)"
          by (simp add: group_of_push_to)
        then show ?thesis
          using 2 e by (intro exI [of _ ?st] bexI [of _ e]) simp_all
      qed
    qed
  qed
qed

lemma load_ios_loop_inv:
  assumes "ios_inv h0 h m visited"
    and "\<And>k e. map_of E k = Some e \<Longrightarrow> e < length h0 \<and> item_id (h0 ! e) = k"
    and "distinct (map sim_udid (visited @ sims))"
    and "foldl (load_ios_step E) (h, c, m) sims = (h', c', m')"
  shows "ios_inv h0 h' m' (visited @ sims)"
  using assms(1,3,4)
proof (induction sims arbitrary: h c m visited)
  case Nil
  then show ?case by simp
next
  case (Cons sim sims)
  obtain h1 c1 m1 where step: "load_ios_step E (h, c, m) sim = (h1, c1, m1)"
    by (cases "load_ios_step E (h, c, m) sim")
  have "sim_udid sim \<notin> sim_udid ` set visited"
    using Cons.prems(2) by auto
  then have fresh: "\<forall>sim' \<in> set visited. sim_udid sim' \<noteq> sim_udid sim"
    by (metis imageI)
  have inv: "ios_inv h0 h1 m1 (visited @ [sim])"
    using Cons.prems(1) assms(2) fresh step by (rule load_ios_step_inv)
  have "ios_inv h0 h' m' ((visited @ [sim]) @ sims)"
    using inv
  proof (rule Cons.IH)
    show "distinct (map sim_udid ((visited @ [sim]) @ sims))"
      using Cons.prems(2) by simp
    show "foldl (load_ios_step E) (h1, c1, m1) sims = (h', c', m')"
      using Cons.prems(3) step by simp
  qed
  then show ?case by simp
qed

text \<open>The loop over the AVDs keeps its invariant.\<close>

lemma android_target_same_name:
  "emu_name emu' = emu_name emu \<Longrightarrow> android_target w emu' x = android_target w emu x"
  by (simp add: android_target_iff)

lemma load_android_step_inv:
  assumes inv: "android_inv w h0 h items visited"
    and consistent: "\<And>k e. map_of E k = Some e \<Longrightarrow> e < length h0 \<and> item_id (h0 ! e) = k"
    and step: "load_android_step w E (h, c, items) emu = (h', c', items')"
  shows "android_inv w h0 h' items' (visited @ [emu])"
proof -
  let ?ident = "''android-'' @ emu_name emu"
  have len: "length h0 \<le> length h"
    and ids: "\<And>r. r < length h0 \<Longrightarrow> item_id (h ! r) = item_id (h0 ! r)"
    and shape: "\<And>r. r < length h0 \<Longrightarrow>
        isSubtype (h ! r) = isSubtype (h0 ! r) \<and> children (h ! r) = children (h0 ! r)"
    and frame: "\<And>r. r < length h0 \<Longrightarrow>
        \<forall>emu' \<in> set visited. item_id (h0 ! r) \<noteq> ''android-'' @ emu_name emu' \<Longrightarrow> h ! r = h0 ! r"
    and old: "\<And>r. r \<in> set items \<Longrightarrow>
        r < length h \<and> (\<exists>emu' \<in> set visited. item_id (h ! r) = ''android-'' @ emu_name emu' \<and>
          android_target w emu' (h ! r))"
    and seen: "\<And>emu'. emu' \<in> set visited \<Longrightarrow>
        \<exists>r \<in> set items. item_id (h ! r) = ''android-'' @ emu_name emu'"
    using inv by (auto simp: android_inv_def)
  show ?thesis
  proof (cases "map_of E ?ident")
    case None
    let ?x = "android_settle w emu (android_item ?ident emu Stopped [])"
    have result: "h' = h @ [?x]" "items' = items @ [length h]"
      using step None by (simp_all add: load_android_step_new)
    have x: "item_id ?x = ?ident" "android_target w emu ?x"
      by (simp_all add: android_item_def)
    show ?thesis
      unfolding android_inv_def result
    proof (intro conjI allI ballI impI)
      show "length h0 \<le> length (h @ [?x])"
        using len by simp
    next
      fix r assume "r < length h0"
      then show "item_id ((h @ [?x]) ! r) = item_id (h0 ! r)"
        "isSubtype ((h @ [?x]) ! r) = isSubtype (h0 ! r)"
        "children ((h @ [?x]) ! r) = children (h0 ! r)"
        using len ids shape by (simp_all add: nth_append)
    next
      fix r assume "r < length h0"
        and "\<forall>emu' \<in> set (visited @ [emu]). item_id (h0 ! r) \<noteq> ''android-'' @ emu_name emu'"
      then show "(h @ [?x]) ! r = h0 ! r"
        using len frame [of r] by (simp add: nth_append)
    next
      fix r assume "r \<in> set (items @ [length h])"
      then consider "r \<in> set items" | "r = length h"
        by auto
      then show "r < length (h @ [?x])"
      proof cases
        case 1
        then show ?thesis using old [OF 1] by simp
      next
        case 2
        then show ?thesis by simp
      qed
    next
      fix r assume "r \<in> set (items @ [length h])"
      then consider "r \<in> set items" | "r = length h"
        by auto
      then show "\<exists>emu' \<in> set (visited @ [emu]).
          item_id ((h @ [?x]) ! r) = ''android-'' @ emu_name emu' \<and>
          android_target w emu' ((h @ [?x]) ! r)"
      proof cases
        case 1
        then show ?thesis
          using old [OF 1] by (auto simp: nth_append)
      next
        case 2
        then show ?thesis
          using x by auto
      qed
    next
      fix emu' assume "emu' \<in> set (visited @ [emu])"
      then consider "emu' \<in> set visited" | "emu' = emu"
        by auto
      then show "\<exists>r \<in> set (items @ [length h]).
          item_id ((h @ [?x]) ! r) = ''android-'' @ emu_name emu'"
      proof cases
        case 1
        then obtain r where r: "r \<in> set items" "item_id (h ! r) = ''android-'' @ emu_name emu'"
          using seen by blast
        then have "item_id ((h @ [?x]) ! r) = ''android-'' @ emu_name emu'"
          using old [OF r(1)] by (simp add: nth_append)
        then show ?thesis
          using r(1) by auto
      next
        case 2
        then show ?thesis
          using x by (intro bexI [of _ "length h"]) simp_all
      qed
    qed
  next
    case (Some e)
    have result: "h' = h[e := android_settle w emu (h ! e)]" "items' = items @ [e]"
      using step Some by (simp_all add: load_android_step_existing)
    have e0: "e < length h0" "item_id (h0 ! e) = ?ident"
      using consistent [OF Some] by simp_all
    have e: "e < length h" "item_id (h ! e) = ?ident"
      using e0 len ids by simp_all
    show ?thesis
      unfolding android_inv_def result
    proof (intro conjI allI ballI impI)
      show "length h0 \<le> length (h[e := android_settle w emu (h ! e)])"
        using len by simp
    next
      fix r assume "r < length h0"
      then show "item_id (h[e := android_settle w emu (h ! e)] ! r) = item_id (h0 ! r)"
        "isSubtype (h[e := android_settle w emu (h ! e)] ! r) = isSubtype (h0 ! r)"
        "children (h[e := android_settle w emu (h ! e)] ! r) = children (h0 ! r)"
        using ids shape by simp_all
    next
      fix r assume r: "r < length h0"
        and none: "\<forall>emu' \<in> set (visited @ [emu]). item_id (h0 ! r) \<noteq> ''android-'' @ emu_name emu'"
      then have "r \<noteq> e"
        using e0 by auto
      then show "h[e := android_settle w emu (h ! e)] ! r = h0 ! r"
        using frame [OF r] none by simp
    next
      fix r assume "r \<in> set (items @ [e])"
      then consider "r \<in> set items" | "r = e"
        by auto
      then show "r < length (h[e := android_settle w emu (h ! e)])"
      proof cases
        case 1
        then show ?thesis using old [OF 1] by simp
      next
        case 2
        then show ?thesis using e by simp
      qed
    next
      fix r assume "r \<in> set (items @ [e])"
      then consider (other) "r \<in> set items" "r \<noteq> e" | (this) "r = e"
        by auto
      then show "\<exists>emu' \<in> set (visited @ [emu]).
          item_id (h[e := android_settle w emu (h ! e)] ! r) = ''android-'' @ emu_name emu' \<and>
          android_target w emu' (h[e := android_settle w emu (h ! e)] ! r)"
      proof cases
        case other
        then show ?thesis
          using old [OF other(1)] by auto
      next
        case this
        then show ?thesis
          using e by auto
      qed
    next
      fix emu' assume "emu' \<in> set (visited @ [emu])"
      then consider "emu' \<in> set visited" | "emu' = emu"
        by auto
      then show "\<exists>r \<in> set (items @ [e]).
          item_id (h[e := android_settle w emu (h ! e)] ! r) = ''android-'' @ emu_name emu'"
      proof cases
        case 1
        then obtain r where r: "r \<in> set items" "item_id (h ! r) = ''android-'' @ emu_name emu'"
          using seen by blast
        then show ?thesis
          by auto
      next
        case 2
        then show ?thesis
          using e by (intro bexI [of _ e]) simp_all
      qed
    qed
  qed
qed

lemma load_android_loop_inv:
  assumes "android_inv w h0 h items visited"
    and "\<And>k e. map_of E k = Some e \<Longrightarrow> e < length h0 \<and> item_id (h0 ! e) = k"
    and "foldl (load_android_step w E) (h, c, items) avds = (h', c', items')"
  shows "android_inv w h0 h' items' (visited @ avds)"
  using assms(1,3)
proof (induction avds arbitrary: h c items visited)
  case Nil
  then show ?case by simp
next
  case (Cons emu avds)
  obtain h1 c1 items1 where step: "load_android_step w E (h, c, items) emu = (h1, c1, items1)"
    by (cases "load_android_step w E (h, c, items) emu")
  have inv: "android_inv w h0 h1 items1 (visited @ [emu])"
    using Cons.prems(1) assms(2) step by (rule load_android_step_inv)
  have "android_inv w h0 h' items' ((visited @ [emu]) @ avds)"
    using inv
  proof (rule Cons.IH)
    show "foldl (load_android_step w E) (h1, c1, items1) avds = (h', c', items')"
      using Cons.prems(2) step by simp
  qed
  then show ?case by simp
qed

lemma android_inv_start: "android_inv w h h [] []"
  by (simp add: android_inv_def)

lemma ios_inv_start: "ios_inv h h [] []"
  by (simp add: ios_inv_def)

text \<open>
  The children of the subtype items that a refresh has just created are the groups of its
  \<^verbatim>\<open>subtypeMap\<close>.
\<close>

lemma ios_children_of_new_subtypes:
  assumes "\<And>i. i < length (h1 @ map (\<lambda>st. subtype_item st (g st)) sel) \<Longrightarrow>
      isSubtype (h3 ! i) = isSubtype ((h1 @ map (\<lambda>st. subtype_item st (g st)) sel) ! i) \<and>
      children (h3 ! i) = children ((h1 @ map (\<lambda>st. subtype_item st (g st)) sel) ! i)"
  shows "ios_children h3 [length h1 ..< length h1 + length sel] = concat (map g sel)"
proof -
  have "map (subtype_children h3) [length h1 ..< length h1 + length sel] = map g sel"
  proof (rule nth_equalityI)
    show "length (map (subtype_children h3) [length h1 ..< length h1 + length sel])
        = length (map g sel)"
      by simp
  next
    fix j assume "j < length (map (subtype_children h3) [length h1 ..< length h1 + length sel])"
    then have j: "j < length sel"
      by simp
    then have "isSubtype (h3 ! (length h1 + j)) \<and> children (h3 ! (length h1 + j)) = Some (g (sel ! j))"
      using assms [of "length h1 + j"] by (simp add: nth_append subtype_item_def)
    then show "map (subtype_children h3) [length h1 ..< length h1 + length sel] ! j = map g sel ! j"
      using j by (simp add: subtype_children_def)
  qed
  then show ?thesis
    by (simp only: ios_children_def)
qed

lemma ios_id_not_android: "''ios-'' @ u \<noteq> ''android-'' @ n"
  by simp

text \<open>After a refresh with both listings the store is settled.\<close>

lemma loadEmulators_settles:
  assumes wf: "wf_provider s"
    and ios: "listIOSSimulators w = Inr sims"
    and android: "listAndroidEmulators w = Inr avds"
    and distinct: "distinct (map sim_udid sims)"
  shows "settled w sims avds (loadEmulators w s)"
proof -
  let ?h0 = "heap s"
  let ?E = "existing_by_id ?h0 (ios_children ?h0 (iosEmulators s))"
  let ?EA = "existing_by_id ?h0 (androidEmulators s)"
  obtain h1 c1 m1 where loop1: "foldl (load_ios_step ?E) (?h0, False, []) sims = (h1, c1, m1)"
    by (cases "foldl (load_ios_step ?E) (?h0, False, []) sims")
  define sel where "sel = filter (\<lambda>st. group_of m1 st \<noteq> []) subtypeOrder"
  define h2 where "h2 = h1 @ map (\<lambda>st. subtype_item st (group_of m1 st)) sel"
  define iosItems where "iosItems = [length h1 ..< length h1 + ios_count sims]"
  have present: "group_of m1 st \<noteq> [] \<longleftrightarrow> st \<in> getIOSDeviceSubtype ` set sims" for st
    using load_ios_loop_present [OF loop1, of st] by simp
  have count: "length sel = ios_count sims"
    by (simp add: sel_def ios_count_def present)
  have first: "load_ios w s = (h2, c1, iosItems, m1)"
    using load_ios_eq [OF ios loop1] by (simp add: h2_def sel_def iosItems_def)
  obtain h3 c2 items where
    loop2: "foldl (load_android_step w ?EA) (h2, c1, []) avds = (h3, c2, items)"
    by (cases "foldl (load_android_step w ?EA) (h2, c1, []) avds")
  have second: "load_android w s (h2, c1) = (h3, c2, items)"
    using loop2 by (simp add: load_android_eq [OF android])
  have unchanged2: "(\<not> c2 \<longleftrightarrow> \<not> c1 \<and> (\<forall>emu \<in> set avds. \<exists>e.
        map_of ?EA (''android-'' @ emu_name emu) = Some e \<and> android_target w emu (h2 ! e)))"
      "\<not> c2 \<longrightarrow> h3 = h2" "length items = length avds"
    using load_android_loop_unchanged [OF loop2] by simp_all
  have unchanged1: "(\<not> c1 \<longleftrightarrow> (\<forall>sim \<in> set sims. \<exists>e.
        map_of ?E (''ios-'' @ sim_udid sim) = Some e \<and> ios_target sim (?h0 ! e)))"
      "\<not> c1 \<longrightarrow> h1 = ?h0"
    using load_ios_loop_unchanged [OF loop1] by simp_all
  have inv1: "ios_inv ?h0 h1 m1 sims"
    using load_ios_loop_inv [OF ios_inv_start wf_existing_ios [OF wf] _ loop1] distinct by simp
  have len01: "length ?h0 \<le> length h1"
    and ids01: "\<And>r. r < length ?h0 \<Longrightarrow> item_id (h1 ! r) = item_id (?h0 ! r)"
    and grouped: "\<And>st r. r \<in> set (group_of m1 st) \<Longrightarrow>
        r < length h1 \<and> (\<exists>sim \<in> set sims. item_id (h1 ! r) = ''ios-'' @ sim_udid sim \<and>
          ios_target sim (h1 ! r))"
    and listed: "\<And>sim. sim \<in> set sims \<Longrightarrow>
        \<exists>st. \<exists>r \<in> set (group_of m1 st). item_id (h1 ! r) = ''ios-'' @ sim_udid sim"
    using inv1 by (auto simp: ios_inv_def)
  have len12: "length h1 \<le> length h2"
    by (simp add: h2_def)
  have consistentA: "e < length h2 \<and> item_id (h2 ! e) = k" if "map_of ?EA k = Some e" for k e
    using wf_existing_android [OF wf that] len01 ids01 [of e] by (simp add: h2_def nth_append)
  have inv2: "android_inv w h2 h3 items avds"
    using load_android_loop_inv [OF android_inv_start consistentA loop2] by simp
  have len23: "length h2 \<le> length h3"
    and shape23: "\<And>r. r < length h2 \<Longrightarrow>
        item_id (h3 ! r) = item_id (h2 ! r) \<and> isSubtype (h3 ! r) = isSubtype (h2 ! r) \<and>
        children (h3 ! r) = children (h2 ! r)"
    and frame23: "\<And>r. r < length h2 \<Longrightarrow>
        \<forall>emu \<in> set avds. item_id (h2 ! r) \<noteq> ''android-'' @ emu_name emu \<Longrightarrow> h3 ! r = h2 ! r"
    and collected: "\<And>r. r \<in> set items \<Longrightarrow>
        r < length h3 \<and> (\<exists>emu \<in> set avds. item_id (h3 ! r) = ''android-'' @ emu_name emu \<and>
          android_target w emu (h3 ! r))"
    and listedA: "\<And>emu. emu \<in> set avds \<Longrightarrow>
        \<exists>r \<in> set items. item_id (h3 ! r) = ''android-'' @ emu_name emu"
    using inv2 by (auto simp: android_inv_def)
  show ?thesis
  proof (cases "c2 \<or> length (iosEmulators s) \<noteq> length iosItems
      \<or> length (androidEmulators s) \<noteq> length items")
    case True
    then have result: "loadEmulators w s =
        s\<lparr>heap := h3, iosEmulators := iosItems, iosEmulatorsBySubtype := m1,
          androidEmulators := items, fired := fired s + 1\<rparr>"
      by (simp add: loadEmulators_def first second)
    let ?children = "ios_children h3 iosItems"
    have "?children = concat (map (group_of m1) sel)"
      unfolding iosItems_def count [symmetric]
      by (rule ios_children_of_new_subtypes) (use shape23 in \<open>simp add: h2_def\<close>)
    then have "set ?children = (\<Union>st \<in> set sel. set (group_of m1 st))"
      by simp
    moreover have "r \<in> set (group_of m1 st) \<Longrightarrow> st \<in> set sel" for r st
      using subtypeOrder_complete [of st] by (auto simp: sel_def)
    ultimately have children: "r \<in> set ?children \<longleftrightarrow> (\<exists>st. r \<in> set (group_of m1 st))" for r
      by blast
    have kept: "r < length h3 \<and> h3 ! r = h1 ! r \<and>
        (\<exists>sim \<in> set sims. item_id (h1 ! r) = ''ios-'' @ sim_udid sim \<and> ios_target sim (h1 ! r))"
      if member: "r \<in> set (group_of m1 st)" for r st
    proof -
      obtain sim where sim: "r < length h1" "sim \<in> set sims"
          "item_id (h1 ! r) = ''ios-'' @ sim_udid sim" "ios_target sim (h1 ! r)"
        using grouped [OF member] by blast
      have r2: "r < length h2" "h2 ! r = h1 ! r"
        using sim(1) by (simp_all add: h2_def nth_append)
      have "\<forall>emu \<in> set avds. item_id (h2 ! r) \<noteq> ''android-'' @ emu_name emu"
        unfolding r2 sim(3) using ios_id_not_android by blast
      then have "h3 ! r = h1 ! r"
        using frame23 [OF r2(1)] r2(2) by simp
      then show ?thesis
        using sim r2(1) len23 by auto
    qed
    have iosPart: "\<exists>e. map_of (existing_by_id h3 ?children) (''ios-'' @ sim_udid sim) = Some e \<and>
        ios_target sim (h3 ! e)" if member: "sim \<in> set sims" for sim
    proof -
      obtain st r where r: "r \<in> set (group_of m1 st)" "item_id (h1 ! r) = ''ios-'' @ sim_udid sim"
        using listed [OF member] by blast
      have "r \<in> set ?children" "item_id (h3 ! r) = ''ios-'' @ sim_udid sim"
        using r kept [OF r(1)] children by auto
      then obtain e where e: "map_of (existing_by_id h3 ?children) (''ios-'' @ sim_udid sim) = Some e"
        using existing_by_id_complete [of r ?children h3] by auto
      then have "item_id (h3 ! e) = ''ios-'' @ sim_udid sim" "e \<in> set ?children"
        using existing_by_id_Some [OF e] by simp_all
      then obtain st' where "e \<in> set (group_of m1 st')"
        using children by blast
      then obtain sim' where sim': "h3 ! e = h1 ! e" "sim' \<in> set sims"
          "item_id (h1 ! e) = ''ios-'' @ sim_udid sim'" "ios_target sim' (h1 ! e)"
        using kept by blast
      have "sim_udid sim' = sim_udid sim"
        using sim'(1,3) \<open>item_id (h3 ! e) = ''ios-'' @ sim_udid sim\<close> by simp
      then have "sim' = sim"
        using distinct member sim'(2) by (auto simp: distinct_map inj_on_def)
      then show ?thesis
        using e sim' by auto
    qed
    have androidPart: "\<exists>e. map_of (existing_by_id h3 items) (''android-'' @ emu_name emu) = Some e \<and>
        e < length h3 \<and> android_target w emu (h3 ! e)" if member: "emu \<in> set avds" for emu
    proof -
      obtain r where r: "r \<in> set items" "item_id (h3 ! r) = ''android-'' @ emu_name emu"
        using listedA [OF member] by blast
      then obtain e where e: "map_of (existing_by_id h3 items) (''android-'' @ emu_name emu) = Some e"
        using existing_by_id_complete [of r items h3] by auto
      then have here: "item_id (h3 ! e) = ''android-'' @ emu_name emu" "e \<in> set items"
        using existing_by_id_Some [OF e] by simp_all
      then obtain emu' where emu': "e < length h3" "item_id (h3 ! e) = ''android-'' @ emu_name emu'"
          "android_target w emu' (h3 ! e)"
        using collected by blast
      have "emu_name emu' = emu_name emu"
        using emu'(2) here(1) by simp
      then have "android_target w emu (h3 ! e)"
        using emu'(3) android_target_same_name by blast
      then show ?thesis
        using e emu'(1) by auto
    qed
    show ?thesis
      unfolding settled_def result
      using iosPart androidPart unchanged2(3) by (simp add: iosItems_def)
  next
    case False
    then have c2: "\<not> c2" and lengths: "length (iosEmulators s) = length iosItems"
        "length (androidEmulators s) = length items"
      by simp_all
    have c1: "\<not> c1" and h3: "h3 = h2"
      and targetsA: "\<forall>emu \<in> set avds. \<exists>e.
        map_of ?EA (''android-'' @ emu_name emu) = Some e \<and> android_target w emu (h2 ! e)"
      using c2 unchanged2 by simp_all
    have h1: "h1 = ?h0"
      and targets: "\<forall>sim \<in> set sims. \<exists>e.
        map_of ?E (''ios-'' @ sim_udid sim) = Some e \<and> ios_target sim (?h0 ! e)"
      using c1 unchanged1 by simp_all
    have result: "loadEmulators w s = s\<lparr>heap := h2, iosEmulatorsBySubtype := m1\<rparr>"
      using False by (simp add: loadEmulators_def first second h3)
    have old: "h2 ! r = ?h0 ! r" if "r < length ?h0" for r
      using that by (simp add: h2_def h1 nth_append)
    have refs: "\<And>r. r \<in> set (iosEmulators s) \<Longrightarrow> r < length ?h0"
      "\<And>r. r \<in> set (ios_children ?h0 (iosEmulators s)) \<Longrightarrow> r < length ?h0"
      "\<And>r. r \<in> set (androidEmulators s) \<Longrightarrow> r < length ?h0"
      using wf by (auto simp: wf_provider_def list_all_iff)
    have children: "ios_children h2 (iosEmulators s) = ios_children ?h0 (iosEmulators s)"
      by (rule ios_children_cong) (simp add: old refs(1))
    have E: "existing_by_id h2 (ios_children h2 (iosEmulators s)) = ?E"
      unfolding children by (rule existing_by_id_cong) (simp add: old refs(2))
    have EA: "existing_by_id h2 (androidEmulators s) = ?EA"
      by (rule existing_by_id_cong) (simp add: old refs(3))
    have iosPart: "\<exists>e. map_of ?E (''ios-'' @ sim_udid sim) = Some e \<and> ios_target sim (h2 ! e)"
      if member: "sim \<in> set sims" for sim
    proof -
      obtain e where e: "map_of ?E (''ios-'' @ sim_udid sim) = Some e" "ios_target sim (?h0 ! e)"
        using targets member by blast
      then show ?thesis
        using wf_existing_ios [OF wf e(1)] old by auto
    qed
    have androidPart: "\<exists>e. map_of ?EA (''android-'' @ emu_name emu) = Some e \<and> e < length h2 \<and>
        android_target w emu (h2 ! e)" if member: "emu \<in> set avds" for emu
    proof -
      obtain e where e: "map_of ?EA (''android-'' @ emu_name emu) = Some e"
          "android_target w emu (h2 ! e)"
        using targetsA member by blast
      then show ?thesis
        using consistentA [OF e(1)] by auto
    qed
    show ?thesis
      unfolding settled_def result
      using iosPart androidPart lengths unchanged2(3) by (simp add: E EA iosItems_def)
  qed
qed

text \<open>
  The four branches that push a placeholder item, for a platform that is unavailable or
  whose listing fails, set \<^verbatim>\<open>hasChanges\<close> without comparing anything: a refresh that takes
  one of them fires from every store.
\<close>

lemma loadEmulators_placeholder_fires:
  assumes "(\<forall>sims. listIOSSimulators w \<noteq> Inr sims) \<or> (\<forall>avds. listAndroidEmulators w \<noteq> Inr avds)"
  shows "fired (loadEmulators w s) = fired s + 1"
proof -
  obtain h1 c1 iosItems m1 where first: "load_ios w s = (h1, c1, iosItems, m1)"
    by (cases "load_ios w s")
  obtain h2 c2 items where second: "load_android w s (h1, c1) = (h2, c2, items)"
    by (cases "load_android w s (h1, c1)")
  have ios: "c1" if "\<forall>sims. listIOSSimulators w \<noteq> Inr sims"
    using that first by (cases "listIOSSimulators w") (auto simp: load_ios_def Let_def split: if_splits)
  have monotone: "c2" if "c1"
  proof (cases "checkAndroidAvailable w")
    case False
    then show ?thesis
      using second by (auto simp: load_android_def Let_def)
  next
    case True
    show ?thesis
    proof (cases "listAndroidEmulators w")
      case (Inl e)
      then show ?thesis
        using True second by (auto simp: load_android_def Let_def)
    next
      case (Inr avds)
      then have "foldl (load_android_step w (existing_by_id (heap s) (androidEmulators s)))
          (h1, c1, []) avds = (h2, c2, items)"
        using second by (simp add: load_android_eq)
      then show ?thesis
        using load_android_loop_unchanged that by blast
    qed
  qed
  have android: "c2" if "\<forall>avds. listAndroidEmulators w \<noteq> Inr avds"
    using that second
    by (cases "listAndroidEmulators w") (auto simp: load_android_def Let_def split: if_splits)
  have "c2"
    using assms ios monotone android by blast
  then show ?thesis
    by (simp add: loadEmulators_def first second)
qed

lemma mac_with_tablet_probes:
  "listIOSSimulators mac_with_tablet =
     Inr [\<lparr>sim_udid = ''AAAAAAAA-BBBB-CCCC-DDDD-EEEEEEEEEEEE'', sim_name = ''iPhone 15'',
           sim_state = ''Booted'', sim_deviceTypeIdentifier = ''...iPhone15,2'',
           sim_runtime = ''iOS-17-0''\<rparr>]"
  "listAndroidEmulators mac_with_tablet
     = Inr [\<lparr>emu_name = ''Tablet_API_33'', emu_status = Stopped\<rparr>]"
  by code_simp+

lemma wf_new_provider: "wf_provider new_provider"
  by (simp add: wf_provider_def new_provider_def ios_children_def)

text \<open>
  The path of the refresh on which both listings are obtained compares every record with
  the probe before it flags a change. On that path, when no two listed simulators share a
  UDID, a refresh that follows a refresh over the same probe data fires no signal, leaves
  the two arrays of the store holding the same references, and leaves every object that
  existed after the first refresh as it was. This holds from every store in which each
  reference designates an object.
\<close>

lemma refresh_after_refresh_when_listed:
  assumes wf: "wf_provider s"
    and ios: "listIOSSimulators w = Inr sims"
    and distinct: "distinct (map sim_udid sims)"
    and android: "listAndroidEmulators w = Inr avds"
  shows "fired (loadEmulators w (loadEmulators w s)) = fired (loadEmulators w s)"
    and "iosEmulators (loadEmulators w (loadEmulators w s)) = iosEmulators (loadEmulators w s)"
    and "androidEmulators (loadEmulators w (loadEmulators w s))
      = androidEmulators (loadEmulators w s)"
    and "take (length (heap (loadEmulators w s))) (heap (loadEmulators w (loadEmulators w s)))
      = heap (loadEmulators w s)"
proof -
  define s1 where "s1 = loadEmulators w s"
  have "settled w sims avds s1"
    unfolding s1_def using wf ios android distinct by (rule loadEmulators_settles)
  then obtain ext m where
    second: "loadEmulators w s1 = s1\<lparr>heap := heap s1 @ ext, iosEmulatorsBySubtype := m\<rparr>"
    using loadEmulators_settled [OF ios android] by blast
  show "fired (loadEmulators w (loadEmulators w s)) = fired (loadEmulators w s)"
    "iosEmulators (loadEmulators w (loadEmulators w s)) = iosEmulators (loadEmulators w s)"
    "androidEmulators (loadEmulators w (loadEmulators w s)) = androidEmulators (loadEmulators w s)"
    "take (length (heap (loadEmulators w s))) (heap (loadEmulators w (loadEmulators w s)))
      = heap (loadEmulators w s)"
    unfolding s1_def [symmetric] second by simp_all
qed

lemma refresh_after_refresh_on_mac_with_tablet:
  "fired (loadEmulators mac_with_tablet (loadEmulators mac_with_tablet new_provider))
     = fired (loadEmulators mac_with_tablet new_provider) \<and>
   iosEmulators (loadEmulators mac_with_tablet (loadEmulators mac_with_tablet new_provider))
     = iosEmulators (loadEmulators mac_with_tablet new_provider) \<and>
   androidEmulators (loadEmulators mac_with_tablet (loadEmulators mac_with_tablet new_provider))
     = androidEmulators (loadEmulators mac_with_tablet new_provider)"
  using refresh_after_refresh_when_listed [OF wf_new_provider mac_with_tablet_probes(1) _
      mac_with_tablet_probes(2)]
  by simp

text \<open>
  Claim C2, evaluated on the code. On the machine \<open>tablet_not_started\<close> Xcode is not
  available, so the refresh takes the branch that pushes the placeholder item, and that
  branch sets \<^verbatim>\<open>hasChanges\<close> without comparing anything. The first refresh of a new provider
  fires once and leaves the placeholder at reference 0 as the only iOS item. The second
  refresh, over the same probe data, fires again, and the iOS item of the store is then
  another object, at reference 2: a signal with no difference detected, and a record whose
  identity is not kept.
\<close>

theorem second_refresh_fires:
  "fired (loadEmulators tablet_not_started new_provider) = 1 \<and>
   iosEmulators (loadEmulators tablet_not_started new_provider) = [0] \<and>
   fired (loadEmulators tablet_not_started (loadEmulators tablet_not_started new_provider)) = 2 \<and>
   iosEmulators (loadEmulators tablet_not_started (loadEmulators tablet_not_started new_provider))
     = [2]"
proof -
  have "fired (loadEmulators tablet_not_started tablet_store) = 2"
    "iosEmulators (loadEmulators tablet_not_started tablet_store) = [2]"
    by (simp_all add: loadEmulators_def load_ios_def load_android_def load_android_step_def
        tablet_not_started_probes tablet_store_def existing_by_id_def
        ios_children_def status_icon_def subtype_children_def placeholder_item_def android_item_def)
  then show ?thesis
    by (simp add: first_refresh) (simp add: tablet_store_def)
qed

theorem second_refresh_fires_witness:
  "fired (loadEmulators tablet_not_started (loadEmulators tablet_not_started new_provider))
     = fired (loadEmulators tablet_not_started new_provider) + 1 \<and>
   iosEmulators (loadEmulators tablet_not_started (loadEmulators tablet_not_started new_provider))
     \<noteq> iosEmulators (loadEmulators tablet_not_started new_provider)"
  using second_refresh_fires by simp

end
